theory Spec2Isabelle
  imports Main "HOL-Library.List_Lexorder"
begin

section \<open>Python strings\<close>

text \<open>
  The script \<^verbatim>\<open>scripts/sync_quest_recordings.py\<close> works on Python \<^verbatim>\<open>str\<close> values:
  sequences of Unicode code points.  A code point is a natural number and a string a list
  of them, so that characters outside ASCII (which \<^verbatim>\<open>subprocess.run(..., text=True)\<close>
  can deliver, and which directory names can hold) are values of the model.  The order on
  strings is the lexicographic order on code points, which is how Python compares
  \<^verbatim>\<open>str\<close> values in \<^verbatim>\<open>sorted\<close>.
\<close>

type_synonym codepoint = nat
type_synonym pystr = "codepoint list"

definition py :: "string \<Rightarrow> pystr" where
  \<comment> \<open>an ASCII literal of the source as a Python string\<close>
  "py s = map of_char s"

definition isspace :: "codepoint \<Rightarrow> bool" where
  \<comment> \<open>the characters \<^verbatim>\<open>str.strip()\<close> and \<^verbatim>\<open>str.split()\<close> treat as whitespace\<close>
  "isspace c \<longleftrightarrow>
     (9 \<le> c \<and> c \<le> 13) \<or> (28 \<le> c \<and> c \<le> 32) \<or> c = 133 \<or> c = 160 \<or> c = 5760 \<or>
     (8192 \<le> c \<and> c \<le> 8202) \<or> c = 8232 \<or> c = 8233 \<or> c = 8239 \<or> c = 8287 \<or> c = 12288"

definition strip :: "pystr \<Rightarrow> pystr" where
  \<comment> \<open>\<^verbatim>\<open>s.strip()\<close>\<close>
  "strip s = rev (dropWhile isspace (rev (dropWhile isspace s)))"

fun split_aux :: "pystr \<Rightarrow> pystr \<Rightarrow> pystr list" where
  "split_aux cur [] = (if cur = [] then [] else [rev cur])"
| "split_aux cur (c # cs) =
     (if isspace c then (if cur = [] then split_aux [] cs else rev cur # split_aux [] cs)
      else split_aux (c # cur) cs)"

definition split :: "pystr \<Rightarrow> pystr list" where
  \<comment> \<open>\<^verbatim>\<open>s.split()\<close> with no separator: the maximal runs of non-whitespace\<close>
  "split s = split_aux [] s"

definition linebreak :: "codepoint \<Rightarrow> bool" where
  \<comment> \<open>the line boundaries of \<^verbatim>\<open>str.splitlines()\<close>\<close>
  "linebreak c \<longleftrightarrow>
     (10 \<le> c \<and> c \<le> 13) \<or> (28 \<le> c \<and> c \<le> 30) \<or> c = 133 \<or> c = 8232 \<or> c = 8233"

fun splitlines_aux :: "pystr \<Rightarrow> pystr \<Rightarrow> pystr list" where
  "splitlines_aux cur [] = (if cur = [] then [] else [rev cur])"
| "splitlines_aux cur [c] = (if linebreak c then [rev cur] else [rev (c # cur)])"
| "splitlines_aux cur (c # d # cs) =
     (if c = 13 \<and> d = 10 then rev cur # splitlines_aux [] cs
      else if linebreak c then rev cur # splitlines_aux [] (d # cs)
      else splitlines_aux (c # cur) (d # cs))"

definition splitlines :: "pystr \<Rightarrow> pystr list" where
  \<comment> \<open>\<^verbatim>\<open>s.splitlines()\<close>: no line for the empty rest after a final boundary\<close>
  "splitlines s = splitlines_aux [] s"

definition replace_cr :: "pystr \<Rightarrow> pystr" where
  \<comment> \<open>\<^verbatim>\<open>s.replace("\r", "")\<close>\<close>
  "replace_cr s = filter (\<lambda>c. c \<noteq> 13) s"

fun join :: "pystr \<Rightarrow> pystr list \<Rightarrow> pystr" where
  \<comment> \<open>\<^verbatim>\<open>sep.join(parts)\<close>\<close>
  "join sep [] = []"
| "join sep [p] = p"
| "join sep (p # q # ps) = p @ sep @ join sep (q # ps)"

section \<open>The session naming rule\<close>

text \<open>
  \<^verbatim>\<open>SESSION_PATTERN = re.compile(r"^\d{8}_\d{6}$")\<close> is compiled without flags.  On a
  \<^verbatim>\<open>str\<close> pattern \<^verbatim>\<open>\d\<close> then matches every Unicode decimal digit (general category
  Nd): the digits of each script form a run of ten consecutive code points, and
  \<open>decimal_zeros\<close> lists the first code point of each run (Unicode 14, the table of
  CPython 3.11).  \<^verbatim>\<open>^\<close> matches at the start of the string only and \<^verbatim>\<open>$\<close> at its end
  or just before a newline that ends it.
\<close>

definition decimal_zeros :: "codepoint list" where
  "decimal_zeros =
     [48, 1632, 1776, 1984, 2406, 2534, 2662, 2790, 2918, 3046, 3174, 3302, 3430, 3558,
      3664, 3792, 3872, 4160, 4240, 6112, 6160, 6470, 6608, 6784, 6800, 6992, 7088, 7232,
      7248, 42528, 43216, 43264, 43472, 43504, 43600, 44016, 65296, 66720, 68912, 69734,
      69872, 69942, 70096, 70384, 70736, 70864, 71248, 71360, 71472, 71904, 72016, 72784,
      73040, 73120, 92768, 92864, 93008, 120782, 120792, 120802, 120812, 120822, 123200,
      123632, 125264, 130032]"

definition isdecimal :: "codepoint \<Rightarrow> bool" where
  \<comment> \<open>what \<^verbatim>\<open>\d\<close> matches in a \<^verbatim>\<open>str\<close> pattern without \<^verbatim>\<open>re.ASCII\<close>\<close>
  "isdecimal c = list_ex (\<lambda>z. z \<le> c \<and> c < z + 10) decimal_zeros"

datatype re_item = Bol | Eol | Digit | Lit codepoint

fun re_match :: "re_item list \<Rightarrow> nat \<Rightarrow> pystr \<Rightarrow> pystr option" where
  \<comment> \<open>match the items in sequence at position \<open>pos\<close>; the result is the unread rest\<close>
  "re_match [] pos s = Some s"
| "re_match (Bol # p) pos s = (if pos = 0 then re_match p pos s else None)"
| "re_match (Eol # p) pos s = (if s = [] \<or> s = [10] then re_match p pos s else None)"
| "re_match (Digit # p) pos [] = None"
| "re_match (Digit # p) pos (c # cs) = (if isdecimal c then re_match p (Suc pos) cs else None)"
| "re_match (Lit x # p) pos [] = None"
| "re_match (Lit x # p) pos (c # cs) = (if c = x then re_match p (Suc pos) cs else None)"

definition fullmatch :: "re_item list \<Rightarrow> pystr \<Rightarrow> bool" where
  \<comment> \<open>\<^verbatim>\<open>pattern.fullmatch(s)\<close> as a truth value: a match from position 0 that reads all of \<open>s\<close>\<close>
  "fullmatch p s \<longleftrightarrow> re_match p 0 s = Some []"

definition SESSION_PATTERN :: "re_item list" where
  "SESSION_PATTERN = [Bol] @ replicate 8 Digit @ [Lit 95] @ replicate 6 Digit @ [Eol]"

definition isValidSessionId :: "pystr \<Rightarrow> bool" where
  "isValidSessionId s = fullmatch SESSION_PATTERN s"

text \<open>
  The rule in words: eight digits, an underscore, six digits, and nothing else.  It is
  stated over a digit class so that it can be read with the digits of \<^verbatim>\<open>\d\<close> and with
  the ASCII digits.
\<close>

definition ascii_digit :: "codepoint \<Rightarrow> bool" where
  "ascii_digit c \<longleftrightarrow> 48 \<le> c \<and> c \<le> 57"

definition session_shape :: "(codepoint \<Rightarrow> bool) \<Rightarrow> pystr \<Rightarrow> bool" where
  "session_shape digit s \<longleftrightarrow>
     length s = 15 \<and> list_all digit (take 8 s) \<and> s ! 8 = 95 \<and> list_all digit (drop 9 s)"

section \<open>The device bridge and the local directory\<close>

text \<open>
  Everything outside the script is an \<open>env\<close>: what \<^verbatim>\<open>shutil.which\<close> finds, what each
  \<^verbatim>\<open>adb\<close> command returns and what the local directory holds.  \<^verbatim>\<open>adb pull\<close> and
  \<^verbatim>\<open>adb shell rm\<close> run once per session, so their answers take the number \<open>k\<close> of
  earlier calls of the same kind in the run, and may differ from call to call.

  A library call can also raise instead of returning: \<^verbatim>\<open>mkdir\<close>, \<^verbatim>\<open>iterdir\<close> and
  \<^verbatim>\<open>is_dir\<close> an \<^verbatim>\<open>OSError\<close>, \<^verbatim>\<open>subprocess.run\<close> an \<^verbatim>\<open>OSError\<close> or, where it decodes
  captured output, a \<^verbatim>\<open>UnicodeDecodeError\<close>.  Such an answer is \<open>Inl\<close> of the exception.
  \<^verbatim>\<open>main\<close> catches \<^verbatim>\<open>RuntimeError\<close> only; any other exception leaves \<^verbatim>\<open>main\<close>, and the
  interpreter prints a traceback and exits with status 1.  \<^verbatim>\<open>print\<close> and
  \<^verbatim>\<open>shutil.which\<close> are taken to return.
\<close>

datatype error = RuntimeError pystr | OSError | UnicodeDecodeError

record completed =
  returncode :: int
  stdout :: pystr
  stderr :: pystr

record env =
  mkdir_local_dir :: "error option"
    \<comment> \<open>\<open>Some\<close> of the exception when resolving or creating \<^verbatim>\<open>local_dir\<close> raises (lines 164-165)\<close>
  which_adb :: bool
    \<comment> \<open>\<^verbatim>\<open>shutil.which("adb") is not None\<close>\<close>
  adb_devices :: "error + completed"
    \<comment> \<open>\<^verbatim>\<open>adb devices\<close>\<close>
  adb_shell_ls :: "pystr \<Rightarrow> error + completed"
    \<comment> \<open>\<^verbatim>\<open>adb shell ls -1 device_dir\<close>\<close>
  local_dir_entries :: "error + (pystr \<times> bool) list option"
    \<comment> \<open>\<open>Inr None\<close> when \<^verbatim>\<open>local_dir\<close> does not exist, else each entry's name and \<^verbatim>\<open>is_dir()\<close>\<close>
  adb_pull :: "nat \<Rightarrow> pystr \<Rightarrow> error + int"
    \<comment> \<open>the return code of the \<open>k\<close>-th \<^verbatim>\<open>adb pull remote local_dir\<close>\<close>
  is_dir_after_pull :: "nat \<Rightarrow> pystr \<Rightarrow> error + bool"
    \<comment> \<open>\<^verbatim>\<open>(local_dir / session).is_dir()\<close> after the \<open>k\<close>-th pull\<close>
  adb_shell_rm :: "nat \<Rightarrow> pystr \<Rightarrow> error + completed"
    \<comment> \<open>the \<open>k\<close>-th \<^verbatim>\<open>adb shell rm -rf remote\<close>\<close>

record args =
  device_dir :: pystr
  local_dir :: pystr
  dry_run :: bool
  no_delete :: bool
  delete_old_only :: bool

datatype event =
    AdbDevices
  | AdbShellLs pystr
  | AdbPull pystr
  | DryRunPull pystr
  | AdbShellRm pystr
  | DryRunDelete pystr

text \<open>
  An \<open>event\<close> is a command the script runs, or the line it prints in its place in a dry
  run; the events of pulls and deletes carry the session.
\<close>

function str_nat :: "nat \<Rightarrow> pystr" where
  "str_nat n = (if n < 10 then [48 + n] else str_nat (n div 10) @ [48 + n mod 10])"
  by pat_completeness auto
termination
  by (relation "measure id") auto

declare str_nat.simps [simp del]

definition str_int :: "int \<Rightarrow> pystr" where
  \<comment> \<open>the decimal text of an integer in an f-string\<close>
  "str_int i = (if i < 0 then 45 # str_nat (nat (- i)) else str_nat (nat i))"

definition run_checked :: "pystr list \<Rightarrow> error + completed \<Rightarrow> error + completed" where
  \<comment> \<open>the second argument is the outcome of \<^verbatim>\<open>subprocess.run(cmd, ...)\<close>\<close>
  "run_checked cmd outcome =
     (case outcome of
        Inl exc \<Rightarrow> Inl exc
      | Inr result \<Rightarrow>
          if returncode result \<noteq> 0 then
            (let stderr' = strip (stderr result);
                 stdout' = strip (stdout result);
                 details = (if stderr' \<noteq> [] then stderr' else stdout')
             in Inl (RuntimeError (py ''Command failed ('' @ str_int (returncode result)
                       @ py ''): '' @ join (py '' '') cmd @ [10] @ details)))
          else Inr result)"

definition ensure_adb_available :: "env \<Rightarrow> error + unit" where
  "ensure_adb_available e =
     (if \<not> which_adb e then Inl (RuntimeError (py ''adb was not found in PATH.'')) else Inr ())"

fun scan_devices :: "pystr list \<Rightarrow> pystr list \<times> pystr list" where
  \<comment> \<open>the loop of \<^verbatim>\<open>ensure_device_connected\<close>: the lists \<^verbatim>\<open>connected\<close> and \<^verbatim>\<open>unauthorized\<close>\<close>
  "scan_devices [] = ([], [])"
| "scan_devices (line # rest) =
     (let (connected, unauthorized) = scan_devices rest;
          line' = strip line
      in if line' = [] then (connected, unauthorized)
         else let parts = split line'
              in if length parts < 2 then (connected, unauthorized)
                 else let serial = parts ! 0; state = parts ! 1
                      in if state = py ''device'' then (serial # connected, unauthorized)
                         else if state = py ''unauthorized'' then (connected, serial # unauthorized)
                         else (connected, unauthorized))"

definition unauthorized_message :: pystr where
  "unauthorized_message =
     py ''Quest is connected but unauthorized. Put on the headset and allow USB debugging.''"

definition no_device_message :: pystr where
  "no_device_message = py ''No ADB device detected.''"

definition ensure_device_connected :: "env \<Rightarrow> error + pystr" where
  "ensure_device_connected e =
     (case run_checked [py ''adb'', py ''devices''] (adb_devices e) of
        Inl exc \<Rightarrow> Inl exc
      | Inr result \<Rightarrow>
          (let (connected, unauthorized) = scan_devices (drop 1 (splitlines (stdout result)))
           in if unauthorized \<noteq> [] \<and> connected = [] then Inl (RuntimeError unauthorized_message)
              else if connected = [] then Inl (RuntimeError no_device_message)
              else Inr (connected ! 0)))"

definition list_device_sessions :: "env \<Rightarrow> pystr \<Rightarrow> error + pystr list" where
  "list_device_sessions e device_dir' =
     (case run_checked [py ''adb'', py ''shell'', py ''ls'', py ''-1'', device_dir']
             (adb_shell_ls e device_dir') of
        Inl exc \<Rightarrow> Inl exc
      | Inr result \<Rightarrow>
          Inr (sort [name \<leftarrow> map (\<lambda>raw. replace_cr (strip raw)) (splitlines (stdout result)).
                       fullmatch SESSION_PATTERN name]))"

definition list_local_sessions :: "env \<Rightarrow> error + pystr set" where
  "list_local_sessions e =
     (case local_dir_entries e of
        Inl exc \<Rightarrow> Inl exc
      | Inr None \<Rightarrow> Inr {}
      | Inr (Some entries) \<Rightarrow>
          Inr (set (map fst [entry \<leftarrow> entries.
                               snd entry \<and> fullmatch SESSION_PATTERN (fst entry)])))"

definition pull_session ::
  "env \<Rightarrow> nat \<Rightarrow> pystr \<Rightarrow> pystr \<Rightarrow> bool \<Rightarrow> (error + bool) \<times> event list" where
  "pull_session e k session device_dir' dry_run' =
     (let remote = device_dir' @ py ''/'' @ session
      in if dry_run' then (Inr True, [DryRunPull session])
         else case adb_pull e k remote of
                Inl exc \<Rightarrow> (Inl exc, [AdbPull session])
              | Inr code \<Rightarrow>
                  if code \<noteq> 0 then (Inr False, [AdbPull session])
                  else case is_dir_after_pull e k session of
                         Inl exc \<Rightarrow> (Inl exc, [AdbPull session])
                       | Inr present \<Rightarrow>
                           if \<not> present then (Inr False, [AdbPull session])
                           else (Inr True, [AdbPull session]))"

definition delete_session ::
  "env \<Rightarrow> nat \<Rightarrow> pystr \<Rightarrow> pystr \<Rightarrow> bool \<Rightarrow> (error + bool) \<times> event list" where
  "delete_session e k session device_dir' dry_run' =
     (let remote = device_dir' @ py ''/'' @ session
      in if dry_run' then (Inr True, [DryRunDelete session])
         else case adb_shell_rm e k remote of
                Inl exc \<Rightarrow> (Inl exc, [AdbShellRm session])
              | Inr result \<Rightarrow>
                  if returncode result \<noteq> 0 then (Inr False, [AdbShellRm session])
                  else (Inr True, [AdbShellRm session]))"

section \<open>The run\<close>

fun insert_keys :: "'a list \<Rightarrow> 'a list \<Rightarrow> 'a list" where
  \<comment> \<open>a \<^verbatim>\<open>dict\<close> keeps its keys in insertion order; a key already present keeps its place\<close>
  "insert_keys keys [] = keys"
| "insert_keys keys (x # xs) = insert_keys (if x \<in> set keys then keys else keys @ [x]) xs"

definition dict_fromkeys :: "'a list \<Rightarrow> 'a list" where
  \<comment> \<open>\<^verbatim>\<open>list(dict.fromkeys(xs))\<close>\<close>
  "dict_fromkeys xs = insert_keys [] xs"

definition new_sessions_of :: "pystr list \<Rightarrow> pystr set \<Rightarrow> pystr list" where
  \<comment> \<open>\<^verbatim>\<open>[s for s in device_sessions if s not in local_before]\<close>\<close>
  "new_sessions_of ds lb = [s \<leftarrow> ds. s \<notin> lb]"

definition old_sessions_of :: "pystr list \<Rightarrow> pystr set \<Rightarrow> pystr list" where
  \<comment> \<open>\<^verbatim>\<open>[s for s in device_sessions if s in local_before]\<close>\<close>
  "old_sessions_of ds lb = [s \<leftarrow> ds. s \<in> lb]"

fun pull_loop ::
  "env \<Rightarrow> args \<Rightarrow> nat \<Rightarrow> pystr list \<Rightarrow> (error + pystr list \<times> pystr list) \<times> event list" where
  \<comment> \<open>\<^verbatim>\<open>for session in new_sessions\<close>: the lists \<^verbatim>\<open>pulled_ok\<close> and \<^verbatim>\<open>pull_failed\<close>,
      or the exception that ended the loop\<close>
  "pull_loop e a k [] = (Inr ([], []), [])"
| "pull_loop e a k (session # rest) =
     (case pull_session e k session (device_dir a) (dry_run a) of
        (Inl exc, ev) \<Rightarrow> (Inl exc, ev)
      | (Inr ok, ev) \<Rightarrow>
          (case pull_loop e a (Suc k) rest of
             (Inl exc, evs) \<Rightarrow> (Inl exc, ev @ evs)
           | (Inr (pulled, failed), evs) \<Rightarrow>
               if ok then (Inr (session # pulled, failed), ev @ evs)
               else (Inr (pulled, session # failed), ev @ evs)))"

definition delete_candidates_of :: "args \<Rightarrow> pystr list \<Rightarrow> pystr list \<Rightarrow> pystr list" where
  "delete_candidates_of a old pulled =
     (if no_delete a then []
      else if delete_old_only a then old
      else dict_fromkeys (old @ pulled))"

fun delete_loop ::
  "env \<Rightarrow> args \<Rightarrow> nat \<Rightarrow> pystr list \<Rightarrow> (error + pystr list \<times> pystr list) \<times> event list" where
  \<comment> \<open>\<^verbatim>\<open>for session in delete_candidates\<close>: the lists \<^verbatim>\<open>deleted_ok\<close> and \<^verbatim>\<open>delete_failed\<close>,
      or the exception that ended the loop\<close>
  "delete_loop e a k [] = (Inr ([], []), [])"
| "delete_loop e a k (session # rest) =
     (case delete_session e k session (device_dir a) (dry_run a) of
        (Inl exc, ev) \<Rightarrow> (Inl exc, ev)
      | (Inr ok, ev) \<Rightarrow>
          (case delete_loop e a (Suc k) rest of
             (Inl exc, evs) \<Rightarrow> (Inl exc, ev @ evs)
           | (Inr (deleted, failed), evs) \<Rightarrow>
               if ok then (Inr (session # deleted, failed), ev @ evs)
               else (Inr (deleted, session # failed), ev @ evs)))"

text \<open>
  What a run leaves behind: the exit status of the process, the commands it ran, the
  \<^verbatim>\<open>[ERROR]\<close> line if \<^verbatim>\<open>main\<close> gave up, the exception if one left \<^verbatim>\<open>main\<close>, and the
  values of the local variables of \<^verbatim>\<open>main\<close> at its last line.  The variables are empty
  where \<^verbatim>\<open>main\<close> returned before assigning them, and where an exception left \<^verbatim>\<open>main\<close>,
  which returns nothing then.
\<close>

record run =
  exit_status :: int
  events :: "event list"
  fatal_error :: "pystr option"
  traceback :: "error option"
  device_sessions :: "pystr list"
  local_before :: "pystr set"
  new_sessions :: "pystr list"
  old_sessions :: "pystr list"
  pulled_ok :: "pystr list"
  pull_failed :: "pystr list"
  delete_candidates :: "pystr list"
  deleted_ok :: "pystr list"
  delete_failed :: "pystr list"

definition early_return :: "int \<Rightarrow> event list \<Rightarrow> pystr option \<Rightarrow> run" where
  \<comment> \<open>\<^verbatim>\<open>main\<close> returns \<open>status\<close> before the plan is made\<close>
  "early_return status evs msg =
     \<lparr>exit_status = status, events = evs, fatal_error = msg, traceback = None,
      device_sessions = [], local_before = {}, new_sessions = [], old_sessions = [],
      pulled_ok = [], pull_failed = [], delete_candidates = [], deleted_ok = [],
      delete_failed = []\<rparr>"

definition uncaught :: "error \<Rightarrow> event list \<Rightarrow> run" where
  \<comment> \<open>an exception leaves \<^verbatim>\<open>main\<close>: traceback, exit status 1\<close>
  "uncaught exc evs =
     \<lparr>exit_status = 1, events = evs, fatal_error = None, traceback = Some exc,
      device_sessions = [], local_before = {}, new_sessions = [], old_sessions = [],
      pulled_ok = [], pull_failed = [], delete_candidates = [], deleted_ok = [],
      delete_failed = []\<rparr>"

fun except_RuntimeError :: "error \<Rightarrow> event list \<Rightarrow> run" where
  \<comment> \<open>\<^verbatim>\<open>except RuntimeError as exc: print(...); return 1\<close>; other exceptions pass\<close>
  "except_RuntimeError (RuntimeError exc) evs = early_return 1 evs (Some exc)"
| "except_RuntimeError exc evs = uncaught exc evs"

definition sync_sessions :: "args \<Rightarrow> env \<Rightarrow> pystr list \<Rightarrow> run" where
  \<comment> \<open>\<^verbatim>\<open>main\<close> from the local inventory on, once \<^verbatim>\<open>device_sessions\<close> is known not to be empty\<close>
  "sync_sessions a e ds =
     (let listing = [AdbDevices, AdbShellLs (device_dir a)]
      in case list_local_sessions e of
           Inl exc \<Rightarrow> uncaught exc listing
         | Inr lb \<Rightarrow>
             (let new = new_sessions_of ds lb;
                  old = old_sessions_of ds lb
              in case pull_loop e a 0 new of
                   (Inl exc, pull_events) \<Rightarrow> uncaught exc (listing @ pull_events)
                 | (Inr (pulled, pfailed), pull_events) \<Rightarrow>
                     (let candidates = delete_candidates_of a old pulled
                      in case delete_loop e a 0 candidates of
                           (Inl exc, delete_events) \<Rightarrow>
                             uncaught exc (listing @ pull_events @ delete_events)
                         | (Inr (deleted, dfailed), delete_events) \<Rightarrow>
                             \<lparr>exit_status = (if pfailed \<noteq> [] \<or> dfailed \<noteq> [] then 1 else 0),
                              events = listing @ pull_events @ delete_events,
                              fatal_error = None, traceback = None,
                              device_sessions = ds, local_before = lb,
                              new_sessions = new, old_sessions = old, pulled_ok = pulled,
                              pull_failed = pfailed, delete_candidates = candidates,
                              deleted_ok = deleted, delete_failed = dfailed\<rparr>)))"

definition main :: "args \<Rightarrow> env \<Rightarrow> run" where
  "main a e =
     (case mkdir_local_dir e of
        Some exc \<Rightarrow> uncaught exc []
      | None \<Rightarrow>
     (case ensure_adb_available e of
        Inl exc \<Rightarrow> except_RuntimeError exc []
      | Inr _ \<Rightarrow>
     (case ensure_device_connected e of
        Inl exc \<Rightarrow> except_RuntimeError exc [AdbDevices]
      | Inr serial \<Rightarrow>
     (case list_device_sessions e (device_dir a) of
        Inl exc \<Rightarrow> except_RuntimeError exc [AdbDevices, AdbShellLs (device_dir a)]
      | Inr ds \<Rightarrow>
          if ds = [] then early_return 0 [AdbDevices, AdbShellLs (device_dir a)] None
          else sync_sessions a e ds))))"

section \<open>The vocabulary of the properties\<close>

definition pull_event :: "args \<Rightarrow> pystr \<Rightarrow> event" where
  \<comment> \<open>what a call of \<^verbatim>\<open>pull_session\<close> does in this run\<close>
  "pull_event a session = (if dry_run a then DryRunPull session else AdbPull session)"

definition delete_event :: "args \<Rightarrow> pystr \<Rightarrow> event" where
  \<comment> \<open>what a call of \<^verbatim>\<open>delete_session\<close> does in this run\<close>
  "delete_event a session = (if dry_run a then DryRunDelete session else AdbShellRm session)"

definition preflight_passes :: "env \<Rightarrow> bool" where
  \<comment> \<open>the run gets to the two checks before the listing and passes both:
      \<^verbatim>\<open>adb\<close> is found and a device is connected\<close>
  "preflight_passes e \<longleftrightarrow>
     mkdir_local_dir e = None \<and> \<not> isl (ensure_adb_available e) \<and>
     \<not> isl (ensure_device_connected e)"




definition command_succeeds :: "error + completed \<Rightarrow> bool" where
  \<comment> \<open>\<^verbatim>\<open>subprocess.run\<close> returns, with return code 0\<close>
  "command_succeeds outcome \<longleftrightarrow>
     (case outcome of Inl exc \<Rightarrow> False | Inr result \<Rightarrow> returncode result = 0)"

definition command_fails :: "error + completed \<Rightarrow> bool" where
  \<comment> \<open>\<^verbatim>\<open>subprocess.run\<close> returns, with a return code other than 0\<close>
  "command_fails outcome \<longleftrightarrow>
     (case outcome of Inl exc \<Rightarrow> False | Inr result \<Rightarrow> returncode result \<noteq> 0)"

definition pull_succeeds :: "env \<Rightarrow> args \<Rightarrow> nat \<Rightarrow> pystr \<Rightarrow> bool" where
  \<comment> \<open>\<^verbatim>\<open>pull_session\<close> returns \<^verbatim>\<open>True\<close> at its \<open>k\<close>-th call\<close>
  "pull_succeeds e a k session \<longleftrightarrow>
     fst (pull_session e k session (device_dir a) (dry_run a)) = Inr True"

definition delete_succeeds :: "env \<Rightarrow> args \<Rightarrow> nat \<Rightarrow> pystr \<Rightarrow> bool" where
  \<comment> \<open>\<^verbatim>\<open>delete_session\<close> returns \<^verbatim>\<open>True\<close> at its \<open>k\<close>-th call\<close>
  "delete_succeeds e a k session \<longleftrightarrow>
     fst (delete_session e k session (device_dir a) (dry_run a)) = Inr True"

definition listed_names :: "env \<Rightarrow> args \<Rightarrow> pystr list" where
  \<comment> \<open>the lines of the remote listing as \<^verbatim>\<open>list_device_sessions\<close> reads them\<close>
  "listed_names e a =
     (case adb_shell_ls e (device_dir a) of
        Inl exc \<Rightarrow> []
      | Inr result \<Rightarrow> map (\<lambda>raw. replace_cr (strip raw)) (splitlines (stdout result)))"

definition blank :: "run \<Rightarrow> bool" where
  \<comment> \<open>the run did not get to the last line of \<^verbatim>\<open>main\<close>: no variable has a value\<close>
  "blank r \<longleftrightarrow> device_sessions r = [] \<and> local_before r = {} \<and> new_sessions r = [] \<and>
     old_sessions r = [] \<and> pulled_ok r = [] \<and> pull_failed r = [] \<and>
     delete_candidates r = [] \<and> deleted_ok r = [] \<and> delete_failed r = []"

fun phase :: "event \<Rightarrow> nat" where
  \<comment> \<open>the phase of the run a command belongs to: preflight and listing, pulls, deletes\<close>
  "phase AdbDevices = 0"
| "phase (AdbShellLs d) = 0"
| "phase (AdbPull s) = 1"
| "phase (DryRunPull s) = 1"
| "phase (AdbShellRm s) = 2"
| "phase (DryRunDelete s) = 2"

fun pulls_of :: "event list \<Rightarrow> pystr list" where
  \<comment> \<open>the sessions of the pull operations, in the order of the operations\<close>
  "pulls_of [] = []"
| "pulls_of (AdbPull s # evs) = s # pulls_of evs"
| "pulls_of (DryRunPull s # evs) = s # pulls_of evs"
| "pulls_of (ev # evs) = pulls_of evs"

fun deletes_of :: "event list \<Rightarrow> pystr list" where
  \<comment> \<open>the sessions of the delete operations, in the order of the operations\<close>
  "deletes_of [] = []"
| "deletes_of (AdbShellRm s # evs) = s # deletes_of evs"
| "deletes_of (DryRunDelete s # evs) = s # deletes_of evs"
| "deletes_of (ev # evs) = deletes_of evs"

definition two_runs :: "pystr list \<Rightarrow> bool" where
  \<comment> \<open>two ascending runs, one after the other\<close>
  "two_runs xs \<longleftrightarrow> (\<exists>olds news. xs = olds @ news \<and> sorted olds \<and> sorted news)"

definition run_shape :: "args \<Rightarrow> run \<Rightarrow> event list \<Rightarrow> pystr list \<Rightarrow> pystr list \<Rightarrow> bool" where
  \<comment> \<open>the events of a run: the commands before the pulls, the pulls, the deletes\<close>
  "run_shape a r pre pulls deletes \<longleftrightarrow>
      events r = pre @ map (pull_event a) pulls @ map (delete_event a) deletes \<and>
      (\<forall>ev \<in> set pre. phase ev = 0) \<and> sorted pulls \<and> two_runs deletes \<and>
      (no_delete a \<longrightarrow> deletes = []) \<and> (delete_old_only a \<longrightarrow> sorted deletes) \<and>
      (traceback r = None \<longrightarrow> pulls = new_sessions r \<and> deletes = delete_candidates r)"

section \<open>Example runs\<close>

text \<open>
  Concrete environments on which the properties below are evaluated: a headset with three
  recordings, of which the last is already in the local directory.
\<close>

definition DEFAULT_DEVICE_DIR :: pystr where
  "DEFAULT_DEVICE_DIR = py ''/sdcard/Android/data/com.samusynth.OpenQuestCapture/files''"

definition ok_result :: "pystr \<Rightarrow> completed" where
  "ok_result out = \<lparr>returncode = 0, stdout = out, stderr = []\<rparr>"

definition failed_result :: "pystr \<Rightarrow> completed" where
  "failed_result err = \<lparr>returncode = 1, stdout = [], stderr = err\<rparr>"

definition session_a :: pystr where "session_a = py ''20240101_100000''"
definition session_b :: pystr where "session_b = py ''20240102_100000''"
definition session_c :: pystr where "session_c = py ''20240103_100000''"

definition headset :: pystr where "headset = py ''1WMHH815K10234''"

definition one_device :: pystr where
  "one_device = py ''List of devices attached'' @ [10] @ headset @ [9] @ py ''device'' @ [10, 10]"

definition three_sessions :: pystr where
  "three_sessions =
     session_a @ [10] @ session_b @ [10] @ session_c @ [10] @ py ''notes.txt'' @ [10]"

definition default_args :: args where
  "default_args = \<lparr>device_dir = DEFAULT_DEVICE_DIR, local_dir = py ''/home/user/recordings'',
     dry_run = False, no_delete = False, delete_old_only = False\<rparr>"

definition quest :: env where
  "quest = \<lparr>mkdir_local_dir = None, which_adb = True,
     adb_devices = Inr (ok_result one_device),
     adb_shell_ls = (\<lambda>_. Inr (ok_result three_sessions)),
     local_dir_entries = Inr (Some [(session_c, True), (py ''notes.txt'', False)]),
     adb_pull = (\<lambda>_ _. Inr 0), is_dir_after_pull = (\<lambda>_ _. Inr True),
     adb_shell_rm = (\<lambda>_ _. Inr (ok_result []))\<rparr>"

definition like_quest :: "env \<Rightarrow> bool" where
  \<comment> \<open>an environment with the device sessions and the local directory of \<open>quest\<close>\<close>
  "like_quest e \<longleftrightarrow> mkdir_local_dir e = None \<and> which_adb e \<and>
     ensure_device_connected e = Inr headset \<and>
     adb_shell_ls e = (\<lambda>_. Inr (ok_result three_sessions)) \<and>
     local_dir_entries e = Inr (Some [(session_c, True), (py ''notes.txt'', False)])"

definition flaky :: env where
  \<comment> \<open>as \<open>quest\<close>, but the pull of the second session leaves no directory behind\<close>
  "flaky = quest\<lparr>is_dir_after_pull := (\<lambda>_ session. Inr (session \<noteq> session_b))\<rparr>"

definition no_recordings_dir :: env where
  \<comment> \<open>as \<open>quest\<close>, but the recordings directory is not on the headset: \<^verbatim>\<open>ls\<close> fails\<close>
  "no_recordings_dir =
     quest\<lparr>adb_shell_ls := (\<lambda>_. Inr (failed_result (py ''ls: No such file or directory'')))\<rparr>"


definition unreadable_local_dir :: env where
  \<comment> \<open>as \<open>quest\<close>, but the local directory cannot be read: \<^verbatim>\<open>iterdir\<close> raises\<close>
  "unreadable_local_dir = quest\<lparr>local_dir_entries := Inl OSError\<rparr>"





definition listed_twice :: "pystr \<Rightarrow> env" where
  \<comment> \<open>as \<open>quest\<close>, but the listing shows \<open>session\<close> on two lines, the second with a blank
      after the name\<close>
  "listed_twice session =
     quest\<lparr>adb_shell_ls := (\<lambda>_. Inr (ok_result (session @ [10] @ session @ [32, 10])))\<rparr>"

section \<open>The naming rule, proved\<close>

lemma isdecimal_ascii: "c < 128 \<Longrightarrow> isdecimal c = ascii_digit c"
  by (auto simp add: isdecimal_def decimal_zeros_def ascii_digit_def)

lemma re_match_digits:
  "re_match (replicate n Digit @ p) pos s =
     (if n \<le> length s \<and> list_all isdecimal (take n s)
      then re_match p (pos + n) (drop n s) else None)"
proof (induction n arbitrary: pos s)
  case 0
  show ?case by simp
next
  case (Suc n)
  show ?case
  proof (cases s)
    case Nil
    then show ?thesis by simp
  next
    case (Cons c cs)
    then show ?thesis by (simp add: Suc.IH)
  qed
qed

lemma re_match_bol: "re_match (Bol # p) 0 s = re_match p 0 s"
  by simp

lemma re_match_lit:
  "re_match (Lit x # p) pos s =
     (if s \<noteq> [] \<and> hd s = x then re_match p (Suc pos) (tl s) else None)"
  by (cases s) simp_all

lemma re_match_eol_end: "re_match [Eol] pos s = Some [] \<longleftrightarrow> s = []"
  by auto

lemma fullmatch_session_shape: "fullmatch SESSION_PATTERN s = session_shape isdecimal s"
proof -
  have "fullmatch SESSION_PATTERN s \<longleftrightarrow>
      8 \<le> length s \<and> list_all isdecimal (take 8 s) \<and> drop 8 s \<noteq> [] \<and> hd (drop 8 s) = 95 \<and>
      6 \<le> length (tl (drop 8 s)) \<and> list_all isdecimal (take 6 (tl (drop 8 s))) \<and>
      drop 6 (tl (drop 8 s)) = []"
    unfolding fullmatch_def SESSION_PATTERN_def
    by (auto simp add: re_match_bol re_match_digits re_match_lit re_match_eol_end
          simp del: re_match.simps)
  also have "\<dots> \<longleftrightarrow> session_shape isdecimal s"
    unfolding session_shape_def
    by (auto simp add: hd_drop_conv_nth tl_drop drop_Suc[symmetric] simp del: drop_Suc)
  finally show ?thesis .
qed

lemma session_shape_ascii:
  assumes "list_all (\<lambda>c. c < 128) s"
  shows "session_shape isdecimal s = session_shape ascii_digit s"
proof -
  have eq: "list_all isdecimal xs = list_all ascii_digit xs" if sub: "set xs \<subseteq> set s" for xs
  proof -
    have "isdecimal c = ascii_digit c" if "c \<in> set xs" for c
    proof (rule isdecimal_ascii)
      from that sub have "c \<in> set s" by blast
      with assms show "c < 128" by (simp add: list_all_iff)
    qed
    then show ?thesis by (simp add: list_all_iff)
  qed
  have "set (take 8 s) \<subseteq> set s" "set (drop 9 s) \<subseteq> set s"
    by (auto dest: in_set_takeD in_set_dropD)
  then show ?thesis
    unfolding session_shape_def by (simp add: eq)
qed

text \<open>
  Claim C3, as the code has it.  \<open>isValidSessionId s\<close> holds if and only if \<open>s\<close> is
  exactly eight decimal digits, an underscore and six decimal digits, with nothing before
  or after, where a decimal digit is what \<^verbatim>\<open>\d\<close> matches: any Unicode decimal digit.  On
  a string of ASCII characters only, that is exactly eight ASCII digits, an underscore and
  six ASCII digits.
\<close>

theorem session_id_rule:
  "isValidSessionId s = session_shape isdecimal s \<and>
   (list_all (\<lambda>c. c < 128) s \<longrightarrow> isValidSessionId s = session_shape ascii_digit s)"
  unfolding isValidSessionId_def
  by (simp add: fullmatch_session_shape session_shape_ascii)

text \<open>
  The three strings of the specification's test are ASCII, and the rule decides them as
  the test says.
\<close>

theorem session_id_rule_witness:
  "list_all (\<lambda>c. c < 128) (py ''20240101_120000'') \<and> isValidSessionId (py ''20240101_120000'') \<and>
   list_all (\<lambda>c. c < 128) (py ''2024-01-01_120000'') \<and> \<not> isValidSessionId (py ''2024-01-01_120000'') \<and>
   list_all (\<lambda>c. c < 128) (py ''20240101_1200000'') \<and> \<not> isValidSessionId (py ''20240101_1200000'')"
proof -
  have a1: "list_all (\<lambda>c. c < 128) (py ''20240101_120000'')"
    and a2: "list_all (\<lambda>c. c < 128) (py ''2024-01-01_120000'')"
    and a3: "list_all (\<lambda>c. c < 128) (py ''20240101_1200000'')"
    by (simp_all add: py_def)
  have "isValidSessionId (py ''20240101_120000'') =
          session_shape ascii_digit (py ''20240101_120000'')"
    using session_id_rule [of "py ''20240101_120000''"] a1 by blast
  then have b1: "isValidSessionId (py ''20240101_120000'')"
    by (simp add: py_def session_shape_def ascii_digit_def)
  have "isValidSessionId (py ''2024-01-01_120000'') =
          session_shape ascii_digit (py ''2024-01-01_120000'')"
    using session_id_rule [of "py ''2024-01-01_120000''"] a2 by blast
  then have b2: "\<not> isValidSessionId (py ''2024-01-01_120000'')"
    by (simp add: py_def session_shape_def ascii_digit_def)
  have "isValidSessionId (py ''20240101_1200000'') =
          session_shape ascii_digit (py ''20240101_1200000'')"
    using session_id_rule [of "py ''20240101_1200000''"] a3 by blast
  then have b3: "\<not> isValidSessionId (py ''20240101_1200000'')"
    by (simp add: py_def session_shape_def ascii_digit_def)
  from a1 a2 a3 b1 b2 b3 show ?thesis by blast
qed

text \<open>
  The claim as stated asks for ASCII digits, and for every string with a character
  outside ASCII to be rejected.  The string of Arabic-Indic digits
  \<^verbatim>\<open>U+0662 U+0660 U+0662 U+0664 U+0660 U+0661 U+0660 U+0661 _ U+0661 U+0662 U+0660 U+0660 U+0660 U+0660\<close>
  is accepted.
\<close>

theorem session_id_non_ascii_counterexample:
  "isValidSessionId [1634, 1632, 1634, 1636, 1632, 1633, 1632, 1633, 95,
                     1633, 1634, 1632, 1632, 1632, 1632] \<and>
   \<not> session_shape ascii_digit [1634, 1632, 1634, 1636, 1632, 1633, 1632, 1633, 95,
                     1633, 1634, 1632, 1632, 1632, 1632]"
  by (simp add: isValidSessionId_def fullmatch_session_shape session_shape_def
        isdecimal_def decimal_zeros_def ascii_digit_def)

section \<open>Pulls and deletes, proved\<close>

lemma pull_session_result:
  "fst (pull_session e k s dd dry) =
     (if dry then Inr True
      else case adb_pull e k (dd @ py ''/'' @ s) of
             Inl exc \<Rightarrow> Inl exc
           | Inr code \<Rightarrow>
               if code \<noteq> 0 then Inr False
               else case is_dir_after_pull e k s of
                      Inl exc \<Rightarrow> Inl exc
                    | Inr present \<Rightarrow> Inr present)"
  by (simp add: pull_session_def Let_def split: sum.splits)

lemma pull_session_events:
  "snd (pull_session e k s (device_dir a) (dry_run a)) = [pull_event a s]"
  by (simp add: pull_session_def pull_event_def Let_def split: sum.splits)

lemma delete_session_result:
  "fst (delete_session e k s dd dry) =
     (if dry then Inr True
      else case adb_shell_rm e k (dd @ py ''/'' @ s) of
             Inl exc \<Rightarrow> Inl exc
           | Inr result \<Rightarrow> Inr (returncode result = 0))"
  by (simp add: delete_session_def Let_def split: sum.splits)

lemma delete_session_events:
  "snd (delete_session e k s (device_dir a) (dry_run a)) = [delete_event a s]"
  by (simp add: delete_session_def delete_event_def Let_def split: sum.splits)

lemma pull_loop_Cons:
  "pull_loop e a k (s # ss) =
     (case fst (pull_session e k s (device_dir a) (dry_run a)) of
        Inl exc \<Rightarrow> (Inl exc, [pull_event a s])
      | Inr ok \<Rightarrow>
          (case fst (pull_loop e a (Suc k) ss) of
             Inl exc \<Rightarrow> (Inl exc, pull_event a s # snd (pull_loop e a (Suc k) ss))
           | Inr both \<Rightarrow>
               (Inr (if ok then (s # fst both, snd both) else (fst both, s # snd both)),
                pull_event a s # snd (pull_loop e a (Suc k) ss))))"
  using pull_session_events [of e k s a]
  by (auto split: prod.splits sum.splits)

lemma delete_loop_Cons:
  "delete_loop e a k (s # ss) =
     (case fst (delete_session e k s (device_dir a) (dry_run a)) of
        Inl exc \<Rightarrow> (Inl exc, [delete_event a s])
      | Inr ok \<Rightarrow>
          (case fst (delete_loop e a (Suc k) ss) of
             Inl exc \<Rightarrow> (Inl exc, delete_event a s # snd (delete_loop e a (Suc k) ss))
           | Inr both \<Rightarrow>
               (Inr (if ok then (s # fst both, snd both) else (fst both, s # snd both)),
                delete_event a s # snd (delete_loop e a (Suc k) ss))))"
  using delete_session_events [of e k s a]
  by (auto split: prod.splits sum.splits)

declare pull_loop.simps(2) [simp del] delete_loop.simps(2) [simp del]

lemma pull_loop_Cons_Inr:
  assumes "fst (pull_loop e a k (s # ss)) = Inr (p, f)"
  shows "\<exists>p' f'. fst (pull_loop e a (Suc k) ss) = Inr (p', f') \<and>
           (pull_succeeds e a k s \<longrightarrow> p = s # p' \<and> f = f') \<and>
           (\<not> pull_succeeds e a k s \<longrightarrow> p = p' \<and> f = s # f')"
  using assms
  by (auto simp add: pull_loop_Cons pull_succeeds_def split: sum.splits if_splits)

lemma pull_loop_events_prefix:
  "\<exists>n \<le> length ss. snd (pull_loop e a k ss) = map (pull_event a) (take n ss)"
proof (induction ss arbitrary: k)
  case Nil
  show ?case by simp
next
  case (Cons s ss)
  from Cons.IH [of "Suc k"] obtain n where n: "n \<le> length ss"
      "snd (pull_loop e a (Suc k) ss) = map (pull_event a) (take n ss)"
    by blast
  show ?case
  proof (cases "fst (pull_session e k s (device_dir a) (dry_run a))")
    case (Inl exc)
    then have "snd (pull_loop e a k (s # ss)) = map (pull_event a) (take 1 (s # ss))"
      by (simp add: pull_loop_Cons)
    then show ?thesis by (intro exI [of _ 1]) simp
  next
    case (Inr ok)
    then have "snd (pull_loop e a k (s # ss)) = map (pull_event a) (take (Suc n) (s # ss))"
      using n by (simp add: pull_loop_Cons split: sum.splits)
    with n show ?thesis by (intro exI [of _ "Suc n"]) simp
  qed
qed

lemma pull_loop_events:
  "fst (pull_loop e a k ss) = Inr both \<Longrightarrow> snd (pull_loop e a k ss) = map (pull_event a) ss"
  by (induction ss arbitrary: k both)
     (auto simp add: pull_loop_Cons split: sum.splits)

lemma pull_loop_ok_iff:
  "fst (pull_loop e a k ss) = Inr (p, f) \<Longrightarrow>
     s \<in> set p \<longleftrightarrow> (\<exists>i < length ss. ss ! i = s \<and> pull_succeeds e a (k + i) s)"
proof (induction ss arbitrary: k p f)
  case Nil
  then show ?case by simp
next
  case (Cons x ss)
  have ex: "(\<exists>i < Suc (length ss). (x # ss) ! i = s \<and> P i) \<longleftrightarrow>
            (x = s \<and> P 0) \<or> (\<exists>i < length ss. ss ! i = s \<and> P (Suc i))" for P
    by (auto simp add: less_Suc_eq_0_disj)
  from Cons.prems obtain p' f' where rest: "fst (pull_loop e a (Suc k) ss) = Inr (p', f')"
    and ok: "pull_succeeds e a k x \<Longrightarrow> p = x # p' \<and> f = f'"
    and ko: "\<not> pull_succeeds e a k x \<Longrightarrow> p = p' \<and> f = x # f'"
    using pull_loop_Cons_Inr by blast
  show ?case
    using Cons.IH [OF rest] ok ko by (cases "pull_succeeds e a k x") (auto simp add: ex)
qed

lemma pull_loop_failed_iff:
  "fst (pull_loop e a k ss) = Inr (p, f) \<Longrightarrow>
     s \<in> set f \<longleftrightarrow> (\<exists>i < length ss. ss ! i = s \<and> \<not> pull_succeeds e a (k + i) s)"
proof (induction ss arbitrary: k p f)
  case Nil
  then show ?case by simp
next
  case (Cons x ss)
  have ex: "(\<exists>i < Suc (length ss). (x # ss) ! i = s \<and> P i) \<longleftrightarrow>
            (x = s \<and> P 0) \<or> (\<exists>i < length ss. ss ! i = s \<and> P (Suc i))" for P
    by (auto simp add: less_Suc_eq_0_disj)
  from Cons.prems obtain p' f' where rest: "fst (pull_loop e a (Suc k) ss) = Inr (p', f')"
    and ok: "pull_succeeds e a k x \<Longrightarrow> p = x # p' \<and> f = f'"
    and ko: "\<not> pull_succeeds e a k x \<Longrightarrow> p = p' \<and> f = x # f'"
    using pull_loop_Cons_Inr by blast
  show ?case
    using Cons.IH [OF rest] ok ko by (cases "pull_succeeds e a k x") (auto simp add: ex)
qed

lemma pull_loop_ok_subset: "fst (pull_loop e a k ss) = Inr (p, f) \<Longrightarrow> set p \<subseteq> set ss"
  by (auto simp add: pull_loop_ok_iff)

lemma pull_loop_failed_subset: "fst (pull_loop e a k ss) = Inr (p, f) \<Longrightarrow> set f \<subseteq> set ss"
  by (auto simp add: pull_loop_failed_iff)

lemma pull_loop_ok_sorted:
  "fst (pull_loop e a k ss) = Inr (p, f) \<Longrightarrow> sorted ss \<Longrightarrow> sorted p"
proof (induction ss arbitrary: k p f)
  case Nil
  then show ?case by simp
next
  case (Cons x ss)
  from Cons.prems(1) obtain p' f' where rest: "fst (pull_loop e a (Suc k) ss) = Inr (p', f')"
    and ok: "pull_succeeds e a k x \<Longrightarrow> p = x # p' \<and> f = f'"
    and ko: "\<not> pull_succeeds e a k x \<Longrightarrow> p = p' \<and> f = x # f'"
    using pull_loop_Cons_Inr by blast
  from Cons.prems(2) have "sorted ss" and least: "\<forall>y \<in> set ss. x \<le> y" by simp_all
  with Cons.IH [OF rest] have "sorted p'" by simp
  moreover from pull_loop_ok_subset [OF rest] least have "\<forall>y \<in> set p'. x \<le> y" by blast
  ultimately show ?case
    using ok ko by (cases "pull_succeeds e a k x") simp_all
qed

lemma pull_loop_count:
  "fst (pull_loop e a k ss) = Inr (p, f) \<Longrightarrow> count_list p s + count_list f s = count_list ss s"
proof (induction ss arbitrary: k p f)
  case Nil
  then show ?case by simp
next
  case (Cons x ss)
  from Cons.prems(1) obtain p' f' where rest: "fst (pull_loop e a (Suc k) ss) = Inr (p', f')"
    and ok: "pull_succeeds e a k x \<Longrightarrow> p = x # p' \<and> f = f'"
    and ko: "\<not> pull_succeeds e a k x \<Longrightarrow> p = p' \<and> f = x # f'"
    using pull_loop_Cons_Inr by blast
  show ?case
    using Cons.IH [OF rest] ok ko by (cases "pull_succeeds e a k x") simp_all
qed

lemma pull_loop_all_ok:
  "(\<And>k s. pull_succeeds e a k s) \<Longrightarrow> fst (pull_loop e a k ss) = Inr (ss, [])"
  by (induction ss arbitrary: k) (simp_all add: pull_loop_Cons pull_succeeds_def)

lemma pull_loop_dry_run: "dry_run a \<Longrightarrow> fst (pull_loop e a k ss) = Inr (ss, [])"
  by (rule pull_loop_all_ok) (simp add: pull_succeeds_def pull_session_result)

lemma delete_loop_events_prefix:
  "\<exists>n \<le> length ss. snd (delete_loop e a k ss) = map (delete_event a) (take n ss)"
proof (induction ss arbitrary: k)
  case Nil
  show ?case by simp
next
  case (Cons s ss)
  from Cons.IH [of "Suc k"] obtain n where n: "n \<le> length ss"
      "snd (delete_loop e a (Suc k) ss) = map (delete_event a) (take n ss)"
    by blast
  show ?case
  proof (cases "fst (delete_session e k s (device_dir a) (dry_run a))")
    case (Inl exc)
    then have "snd (delete_loop e a k (s # ss)) = map (delete_event a) (take 1 (s # ss))"
      by (simp add: delete_loop_Cons)
    then show ?thesis by (intro exI [of _ 1]) simp
  next
    case (Inr ok)
    then have "snd (delete_loop e a k (s # ss)) = map (delete_event a) (take (Suc n) (s # ss))"
      using n by (simp add: delete_loop_Cons split: sum.splits)
    with n show ?thesis by (intro exI [of _ "Suc n"]) simp
  qed
qed

lemma delete_loop_events:
  "fst (delete_loop e a k ss) = Inr both \<Longrightarrow>
     snd (delete_loop e a k ss) = map (delete_event a) ss"
  by (induction ss arbitrary: k both)
     (auto simp add: delete_loop_Cons split: sum.splits)

lemma delete_loop_all_ok:
  "(\<And>k s. fst (delete_session e k s (device_dir a) (dry_run a)) = Inr True) \<Longrightarrow>
     fst (delete_loop e a k ss) = Inr (ss, [])"
  by (induction ss arbitrary: k) (simp_all add: delete_loop_Cons)

lemma delete_loop_dry_run: "dry_run a \<Longrightarrow> fst (delete_loop e a k ss) = Inr (ss, [])"
  by (rule delete_loop_all_ok) (simp add: delete_session_result)

lemma delete_loop_Cons_Inr:
  assumes "fst (delete_loop e a k (s # ss)) = Inr (d, f)"
  shows "\<exists>d' f'. fst (delete_loop e a (Suc k) ss) = Inr (d', f') \<and>
           (delete_succeeds e a k s \<longrightarrow> d = s # d' \<and> f = f') \<and>
           (\<not> delete_succeeds e a k s \<longrightarrow> d = d' \<and> f = s # f')"
  using assms
  by (auto simp add: delete_loop_Cons delete_succeeds_def split: sum.splits if_splits)

lemma delete_loop_ok_iff:
  "fst (delete_loop e a k ss) = Inr (d, f) \<Longrightarrow>
     s \<in> set d \<longleftrightarrow> (\<exists>i < length ss. ss ! i = s \<and> delete_succeeds e a (k + i) s)"
proof (induction ss arbitrary: k d f)
  case Nil
  then show ?case by simp
next
  case (Cons x ss)
  have ex: "(\<exists>i < Suc (length ss). (x # ss) ! i = s \<and> P i) \<longleftrightarrow>
            (x = s \<and> P 0) \<or> (\<exists>i < length ss. ss ! i = s \<and> P (Suc i))" for P
    by (auto simp add: less_Suc_eq_0_disj)
  from Cons.prems obtain d' f' where rest: "fst (delete_loop e a (Suc k) ss) = Inr (d', f')"
    and ok: "delete_succeeds e a k x \<Longrightarrow> d = x # d' \<and> f = f'"
    and ko: "\<not> delete_succeeds e a k x \<Longrightarrow> d = d' \<and> f = x # f'"
    using delete_loop_Cons_Inr by blast
  show ?case
    using Cons.IH [OF rest] ok ko by (cases "delete_succeeds e a k x") (auto simp add: ex)
qed


section \<open>The key list of a dictionary\<close>

lemma set_insert_keys: "set (insert_keys keys xs) = set keys \<union> set xs"
  by (induction xs arbitrary: keys) auto

lemma distinct_insert_keys: "distinct keys \<Longrightarrow> distinct (insert_keys keys xs)"
  by (induction xs arbitrary: keys) auto

lemma insert_keys_append: "insert_keys keys (xs @ ys) = insert_keys (insert_keys keys xs) ys"
  by (induction xs arbitrary: keys) auto

lemma insert_keys_split:
  "insert_keys (keys @ keys') xs = keys @ insert_keys keys' [x \<leftarrow> xs. x \<notin> set keys]"
proof (induction xs arbitrary: keys')
  case Nil
  show ?case by simp
next
  case (Cons x xs)
  show ?case
    using Cons.IH [of keys'] Cons.IH [of "keys' @ [x]"] by auto
qed

lemma insert_keys_prefix:
  "insert_keys keys xs = keys @ insert_keys [] [x \<leftarrow> xs. x \<notin> set keys]"
  using insert_keys_split [of keys "[]" xs] by simp

lemma sorted_insert_keys:
  fixes keys :: "'a::linorder list"
  shows "sorted (keys @ xs) \<Longrightarrow> sorted (insert_keys keys xs)"
proof (induction xs arbitrary: keys)
  case Nil
  then show ?case by simp
next
  case (Cons x xs)
  show ?case
  proof (cases "x \<in> set keys")
    case True
    from Cons.prems have "sorted (keys @ xs)"
      by (auto simp add: sorted_append)
    with True show ?thesis by (simp add: Cons.IH)
  next
    case False
    from Cons.prems have "sorted ((keys @ [x]) @ xs)" by simp
    with False show ?thesis by (simp add: Cons.IH del: append_assoc)
  qed
qed

lemma set_dict_fromkeys: "set (dict_fromkeys xs) = set xs"
  by (simp add: dict_fromkeys_def set_insert_keys)

lemma distinct_dict_fromkeys: "distinct (dict_fromkeys xs)"
  by (simp add: dict_fromkeys_def distinct_insert_keys)

lemma sorted_dict_fromkeys:
  fixes xs :: "'a::linorder list"
  shows "sorted xs \<Longrightarrow> sorted (dict_fromkeys xs)"
  by (simp add: dict_fromkeys_def sorted_insert_keys)

lemma dict_fromkeys_append_disjoint:
  assumes "set xs \<inter> set ys = {}"
  shows "dict_fromkeys (xs @ ys) = dict_fromkeys xs @ dict_fromkeys ys"
proof -
  have "[y \<leftarrow> ys. y \<notin> set (insert_keys [] xs)] = ys"
    using assms by (auto simp add: set_insert_keys filter_id_conv)
  then show ?thesis
    unfolding dict_fromkeys_def
    by (simp add: insert_keys_append insert_keys_prefix [of "insert_keys [] xs" ys])
qed

section \<open>The run, proved\<close>

lemma early_return_fields:
  "exit_status (early_return st evs msg) = st"
  "events (early_return st evs msg) = evs"
  "fatal_error (early_return st evs msg) = msg"
  "traceback (early_return st evs msg) = None"
  "device_sessions (early_return st evs msg) = []"
  "local_before (early_return st evs msg) = {}"
  "new_sessions (early_return st evs msg) = []"
  "old_sessions (early_return st evs msg) = []"
  "pulled_ok (early_return st evs msg) = []"
  "pull_failed (early_return st evs msg) = []"
  "delete_candidates (early_return st evs msg) = []"
  "deleted_ok (early_return st evs msg) = []"
  "delete_failed (early_return st evs msg) = []"
  by (simp_all add: early_return_def)

lemma uncaught_fields:
  "exit_status (uncaught exc evs) = 1"
  "events (uncaught exc evs) = evs"
  "fatal_error (uncaught exc evs) = None"
  "traceback (uncaught exc evs) = Some exc"
  "device_sessions (uncaught exc evs) = []"
  "local_before (uncaught exc evs) = {}"
  "new_sessions (uncaught exc evs) = []"
  "old_sessions (uncaught exc evs) = []"
  "pulled_ok (uncaught exc evs) = []"
  "pull_failed (uncaught exc evs) = []"
  "delete_candidates (uncaught exc evs) = []"
  "deleted_ok (uncaught exc evs) = []"
  "delete_failed (uncaught exc evs) = []"
  by (simp_all add: uncaught_def)

lemma except_RuntimeError_fields:
  "exit_status (except_RuntimeError exc evs) = 1"
  "events (except_RuntimeError exc evs) = evs"
  by (cases exc; simp add: early_return_fields uncaught_fields)+

lemma except_RuntimeError_message:
  "fatal_error (except_RuntimeError (RuntimeError m) evs) = Some m"
  "traceback (except_RuntimeError (RuntimeError m) evs) = None"
  by (simp_all add: early_return_fields)

lemma blank_early_return: "blank (early_return st evs msg)"
  by (simp add: blank_def early_return_fields)

lemma blank_uncaught: "blank (uncaught exc evs)"
  by (simp add: blank_def uncaught_fields)

lemma blank_except_RuntimeError: "blank (except_RuntimeError exc evs)"
  by (cases exc) (simp_all add: blank_early_return blank_uncaught)

lemma blank_fields:
  assumes "blank r"
  shows "device_sessions r = []" "local_before r = {}" "new_sessions r = []"
    "old_sessions r = []" "pulled_ok r = []" "pull_failed r = []"
    "delete_candidates r = []" "deleted_ok r = []" "delete_failed r = []"
  using assms by (simp_all add: blank_def)

lemma sync_sessions_unfold:
  "sync_sessions a e ds =
     (case list_local_sessions e of
        Inl exc \<Rightarrow> uncaught exc [AdbDevices, AdbShellLs (device_dir a)]
      | Inr lb \<Rightarrow>
          (case fst (pull_loop e a 0 (new_sessions_of ds lb)) of
             Inl exc \<Rightarrow>
               uncaught exc ([AdbDevices, AdbShellLs (device_dir a)]
                             @ snd (pull_loop e a 0 (new_sessions_of ds lb)))
           | Inr both \<Rightarrow>
               (case fst (delete_loop e a 0
                            (delete_candidates_of a (old_sessions_of ds lb) (fst both))) of
                  Inl exc \<Rightarrow>
                    uncaught exc ([AdbDevices, AdbShellLs (device_dir a)]
                       @ snd (pull_loop e a 0 (new_sessions_of ds lb))
                       @ snd (delete_loop e a 0
                                (delete_candidates_of a (old_sessions_of ds lb) (fst both))))
                | Inr both' \<Rightarrow>
                    \<lparr>exit_status = (if snd both \<noteq> [] \<or> snd both' \<noteq> [] then 1 else 0),
                     events = [AdbDevices, AdbShellLs (device_dir a)]
                       @ snd (pull_loop e a 0 (new_sessions_of ds lb))
                       @ snd (delete_loop e a 0
                                (delete_candidates_of a (old_sessions_of ds lb) (fst both))),
                     fatal_error = None, traceback = None,
                     device_sessions = ds, local_before = lb,
                     new_sessions = new_sessions_of ds lb,
                     old_sessions = old_sessions_of ds lb,
                     pulled_ok = fst both, pull_failed = snd both,
                     delete_candidates =
                       delete_candidates_of a (old_sessions_of ds lb) (fst both),
                     deleted_ok = fst both', delete_failed = snd both'\<rparr>)))"
  by (auto simp add: sync_sessions_def Let_def split: prod.splits sum.splits)

lemma sync_sessions_unreadable:
  "list_local_sessions e = Inl exc \<Longrightarrow>
     sync_sessions a e ds = uncaught exc [AdbDevices, AdbShellLs (device_dir a)]"
  by (simp add: sync_sessions_def)

lemma sync_sessions_pull_raised:
  assumes "list_local_sessions e = Inr lb"
    and "fst (pull_loop e a 0 (new_sessions_of ds lb)) = Inl exc"
  shows "sync_sessions a e ds =
     uncaught exc ([AdbDevices, AdbShellLs (device_dir a)]
                   @ snd (pull_loop e a 0 (new_sessions_of ds lb)))"
  using assms by (simp add: sync_sessions_unfold)

lemma sync_sessions_delete_raised:
  assumes "list_local_sessions e = Inr lb"
    and "fst (pull_loop e a 0 (new_sessions_of ds lb)) = Inr (pulled, pfailed)"
    and "fst (delete_loop e a 0 (delete_candidates_of a (old_sessions_of ds lb) pulled)) = Inl exc"
  shows "sync_sessions a e ds =
     uncaught exc ([AdbDevices, AdbShellLs (device_dir a)]
        @ map (pull_event a) (new_sessions_of ds lb)
        @ snd (delete_loop e a 0 (delete_candidates_of a (old_sessions_of ds lb) pulled)))"
  using assms pull_loop_events [OF assms(2)]
  by (simp add: sync_sessions_unfold)

lemma sync_sessions_done:
  assumes "list_local_sessions e = Inr lb"
    and "fst (pull_loop e a 0 (new_sessions_of ds lb)) = Inr (pulled, pfailed)"
    and "fst (delete_loop e a 0 (delete_candidates_of a (old_sessions_of ds lb) pulled))
           = Inr (deleted, dfailed)"
  shows "sync_sessions a e ds =
     \<lparr>exit_status = (if pfailed \<noteq> [] \<or> dfailed \<noteq> [] then 1 else 0),
      events = [AdbDevices, AdbShellLs (device_dir a)]
               @ map (pull_event a) (new_sessions_of ds lb)
               @ map (delete_event a) (delete_candidates_of a (old_sessions_of ds lb) pulled),
      fatal_error = None, traceback = None,
      device_sessions = ds, local_before = lb,
      new_sessions = new_sessions_of ds lb, old_sessions = old_sessions_of ds lb,
      pulled_ok = pulled, pull_failed = pfailed,
      delete_candidates = delete_candidates_of a (old_sessions_of ds lb) pulled,
      deleted_ok = deleted, delete_failed = dfailed\<rparr>"
  using assms pull_loop_events [OF assms(2)] delete_loop_events [OF assms(3)]
  by (simp add: sync_sessions_unfold)

lemma sync_sessions_cases:
  obtains (raised) exc evs where "sync_sessions a e ds = uncaught exc evs"
  | (finished) lb pulled pfailed deleted dfailed where
      "list_local_sessions e = Inr lb"
      "fst (pull_loop e a 0 (new_sessions_of ds lb)) = Inr (pulled, pfailed)"
      "fst (delete_loop e a 0 (delete_candidates_of a (old_sessions_of ds lb) pulled))
         = Inr (deleted, dfailed)"
proof (cases "list_local_sessions e")
  case (Inl exc)
  then show ?thesis using raised sync_sessions_unreadable by blast
next
  case lb: (Inr lb)
  show ?thesis
  proof (cases "fst (pull_loop e a 0 (new_sessions_of ds lb))")
    case (Inl exc)
    with lb show ?thesis using raised sync_sessions_pull_raised by blast
  next
    case (Inr both)
    then have pulls: "fst (pull_loop e a 0 (new_sessions_of ds lb)) = Inr (fst both, snd both)"
      by simp
    show ?thesis
    proof (cases "fst (delete_loop e a 0
                         (delete_candidates_of a (old_sessions_of ds lb) (fst both)))")
      case (Inl exc)
      with lb pulls show ?thesis using raised sync_sessions_delete_raised by blast
    next
      case (Inr both')
      then have "fst (delete_loop e a 0
                        (delete_candidates_of a (old_sessions_of ds lb) (fst both)))
                   = Inr (fst both', snd both')"
        by simp
      with lb pulls show ?thesis using finished by blast
    qed
  qed
qed

lemma run_checked_cases:
  "run_checked cmd (Inr r) = (if returncode r \<noteq> 0
     then Inl (RuntimeError (py ''Command failed ('' @ str_int (returncode r) @ py ''): ''
                   @ join (py '' '') cmd @ [10]
                   @ (if strip (stderr r) \<noteq> [] then strip (stderr r) else strip (stdout r))))
     else Inr r)"
  "run_checked cmd (Inl exc) = Inl exc"
  by (simp_all add: run_checked_def Let_def)

lemma main_mkdir_raised: "mkdir_local_dir e = Some exc \<Longrightarrow> main a e = uncaught exc []"
  by (simp add: main_def)

lemma main_no_adb:
  "mkdir_local_dir e = None \<Longrightarrow> \<not> which_adb e \<Longrightarrow>
     main a e = early_return 1 [] (Some (py ''adb was not found in PATH.''))"
  by (simp add: main_def ensure_adb_available_def)

lemma main_no_device:
  "mkdir_local_dir e = None \<Longrightarrow> which_adb e \<Longrightarrow> ensure_device_connected e = Inl exc \<Longrightarrow>
     main a e = except_RuntimeError exc [AdbDevices]"
  by (simp add: main_def ensure_adb_available_def)

lemma main_listing_failed:
  "mkdir_local_dir e = None \<Longrightarrow> which_adb e \<Longrightarrow> ensure_device_connected e = Inr serial \<Longrightarrow>
   list_device_sessions e (device_dir a) = Inl exc \<Longrightarrow>
     main a e = except_RuntimeError exc [AdbDevices, AdbShellLs (device_dir a)]"
  by (simp add: main_def ensure_adb_available_def)

lemma main_nothing_found:
  "mkdir_local_dir e = None \<Longrightarrow> which_adb e \<Longrightarrow> ensure_device_connected e = Inr serial \<Longrightarrow>
   list_device_sessions e (device_dir a) = Inr [] \<Longrightarrow>
     main a e = early_return 0 [AdbDevices, AdbShellLs (device_dir a)] None"
  by (simp add: main_def ensure_adb_available_def)

lemma main_sync:
  "mkdir_local_dir e = None \<Longrightarrow> which_adb e \<Longrightarrow> ensure_device_connected e = Inr serial \<Longrightarrow>
   list_device_sessions e (device_dir a) = Inr ds \<Longrightarrow> ds \<noteq> [] \<Longrightarrow>
     main a e = sync_sessions a e ds"
  by (simp add: main_def ensure_adb_available_def)

lemma main_stages:
  obtains (mkdir) exc where "mkdir_local_dir e = Some exc" "main a e = uncaught exc []"
  | (adb) "mkdir_local_dir e = None" "\<not> which_adb e"
      "main a e = early_return 1 [] (Some (py ''adb was not found in PATH.''))"
  | (device) exc where "mkdir_local_dir e = None" "which_adb e"
      "ensure_device_connected e = Inl exc" "main a e = except_RuntimeError exc [AdbDevices]"
  | (listing) serial exc where "mkdir_local_dir e = None" "which_adb e"
      "ensure_device_connected e = Inr serial"
      "list_device_sessions e (device_dir a) = Inl exc"
      "main a e = except_RuntimeError exc [AdbDevices, AdbShellLs (device_dir a)]"
  | (no_session) serial where "mkdir_local_dir e = None" "which_adb e"
      "ensure_device_connected e = Inr serial"
      "list_device_sessions e (device_dir a) = Inr []"
      "main a e = early_return 0 [AdbDevices, AdbShellLs (device_dir a)] None"
  | (sync) serial ds where "mkdir_local_dir e = None" "which_adb e"
      "ensure_device_connected e = Inr serial"
      "list_device_sessions e (device_dir a) = Inr ds" "ds \<noteq> []"
      "main a e = sync_sessions a e ds"
proof (cases "mkdir_local_dir e")
  case (Some exc)
  then show ?thesis using mkdir main_mkdir_raised by blast
next
  case dir: None
  show ?thesis
  proof (cases "which_adb e")
    case False
    with dir show ?thesis using adb main_no_adb by blast
  next
    case which: True
    show ?thesis
    proof (cases "ensure_device_connected e")
      case (Inl exc)
      with dir which show ?thesis using device main_no_device by blast
    next
      case dev: (Inr serial)
      show ?thesis
      proof (cases "list_device_sessions e (device_dir a)")
        case (Inl exc)
        with dir which dev show ?thesis using listing main_listing_failed by blast
      next
        case (Inr ds)
        show ?thesis
        proof (cases "ds = []")
          case True
          with Inr have "list_device_sessions e (device_dir a) = Inr []" by simp
          with dir which dev show ?thesis using no_session main_nothing_found by blast
        next
          case False
          with dir which dev Inr show ?thesis using sync main_sync by blast
        qed
      qed
    qed
  qed
qed

lemma main_cases:
  obtains (blank) "blank (main a e)"
  | (finished) serial ds lb pulled pfailed deleted dfailed where
      "mkdir_local_dir e = None" "which_adb e" "ensure_device_connected e = Inr serial"
      "list_device_sessions e (device_dir a) = Inr ds" "ds \<noteq> []"
      "list_local_sessions e = Inr lb"
      "fst (pull_loop e a 0 (new_sessions_of ds lb)) = Inr (pulled, pfailed)"
      "fst (delete_loop e a 0 (delete_candidates_of a (old_sessions_of ds lb) pulled))
         = Inr (deleted, dfailed)"
      "main a e = sync_sessions a e ds"
proof (cases a e rule: main_stages)
  case (sync serial ds)
  show ?thesis
  proof (cases a e ds rule: sync_sessions_cases)
    case (raised exc evs)
    with sync(6) show ?thesis using blank blank_uncaught by simp
  next
    case (finished lb pulled pfailed deleted dfailed)
    with sync show ?thesis using that(2) by blast
  qed
qed (simp_all add: blank blank_early_return blank_uncaught blank_except_RuntimeError)

lemma done_fields:
  assumes "list_local_sessions e = Inr lb"
    and "fst (pull_loop e a 0 (new_sessions_of ds lb)) = Inr (pulled, pfailed)"
    and "fst (delete_loop e a 0 (delete_candidates_of a (old_sessions_of ds lb) pulled))
           = Inr (deleted, dfailed)"
  shows "exit_status (sync_sessions a e ds) = (if pfailed \<noteq> [] \<or> dfailed \<noteq> [] then 1 else 0)"
    and "events (sync_sessions a e ds) = [AdbDevices, AdbShellLs (device_dir a)]
               @ map (pull_event a) (new_sessions_of ds lb)
               @ map (delete_event a) (delete_candidates_of a (old_sessions_of ds lb) pulled)"
    and "fatal_error (sync_sessions a e ds) = None"
    and "traceback (sync_sessions a e ds) = None"
    and "device_sessions (sync_sessions a e ds) = ds"
    and "local_before (sync_sessions a e ds) = lb"
    and "new_sessions (sync_sessions a e ds) = new_sessions_of ds lb"
    and "old_sessions (sync_sessions a e ds) = old_sessions_of ds lb"
    and "pulled_ok (sync_sessions a e ds) = pulled"
    and "pull_failed (sync_sessions a e ds) = pfailed"
    and "delete_candidates (sync_sessions a e ds)
           = delete_candidates_of a (old_sessions_of ds lb) pulled"
    and "deleted_ok (sync_sessions a e ds) = deleted"
    and "delete_failed (sync_sessions a e ds) = dfailed"
  by (simp_all add: sync_sessions_done [OF assms])

lemma list_device_sessions_ok:
  "command_succeeds (adb_shell_ls e (device_dir a)) \<Longrightarrow>
     list_device_sessions e (device_dir a) =
       Inr (sort [name \<leftarrow> listed_names e a. fullmatch SESSION_PATTERN name])"
  by (cases "adb_shell_ls e (device_dir a)")
     (simp_all add: list_device_sessions_def run_checked_cases listed_names_def
        command_succeeds_def)

lemma list_device_sessions_failed:
  "command_fails (adb_shell_ls e dd) \<Longrightarrow> \<exists>m. list_device_sessions e dd = Inl (RuntimeError m)"
  by (cases "adb_shell_ls e dd")
     (simp_all add: list_device_sessions_def run_checked_cases command_fails_def)

lemma list_device_sessions_Inr:
  assumes "list_device_sessions e (device_dir a) = Inr ds"
  shows "command_succeeds (adb_shell_ls e (device_dir a))"
    and "ds = sort [name \<leftarrow> listed_names e a. fullmatch SESSION_PATTERN name]"
  using assms
  by (cases "adb_shell_ls e (device_dir a)";
      auto simp add: list_device_sessions_def run_checked_cases listed_names_def
        command_succeeds_def split: if_splits)+


lemma ensure_device_connected_failed:
  "command_fails (adb_devices e) \<Longrightarrow> \<exists>m. ensure_device_connected e = Inl (RuntimeError m)"
  by (cases "adb_devices e")
     (simp_all add: ensure_device_connected_def run_checked_cases command_fails_def)

lemma preflight_passes_iff:
  "preflight_passes e \<longleftrightarrow>
     mkdir_local_dir e = None \<and> which_adb e \<and> (\<exists>serial. ensure_device_connected e = Inr serial)"
  by (cases "ensure_device_connected e") (simp_all add: preflight_passes_def ensure_adb_available_def)

section \<open>The order of the operations\<close>

lemma pulls_of_append: "pulls_of (xs @ ys) = pulls_of xs @ pulls_of ys"
  by (induction xs rule: pulls_of.induct) simp_all

lemma deletes_of_append: "deletes_of (xs @ ys) = deletes_of xs @ deletes_of ys"
  by (induction xs rule: deletes_of.induct) simp_all

lemma events_Cons:
  "pulls_of (pull_event a s # evs) = s # pulls_of evs"
  "pulls_of (delete_event a s # evs) = pulls_of evs"
  "deletes_of (pull_event a s # evs) = deletes_of evs"
  "deletes_of (delete_event a s # evs) = s # deletes_of evs"
  "phase (pull_event a s) = 1"
  "phase (delete_event a s) = 2"
  by (simp_all add: pull_event_def delete_event_def)

lemma pulls_of_pull_events: "pulls_of (map (pull_event a) ss) = ss"
  by (induction ss) (simp_all add: events_Cons)

lemma pulls_of_delete_events: "pulls_of (map (delete_event a) ss) = []"
  by (induction ss) (simp_all add: events_Cons)

lemma deletes_of_pull_events: "deletes_of (map (pull_event a) ss) = []"
  by (induction ss) (simp_all add: events_Cons)

lemma deletes_of_delete_events: "deletes_of (map (delete_event a) ss) = ss"
  by (induction ss) (simp_all add: events_Cons)

lemma phase_pull_events: "map phase (map (pull_event a) ss) = replicate (length ss) 1"
  by (induction ss) (simp_all add: events_Cons)

lemma phase_delete_events: "map phase (map (delete_event a) ss) = replicate (length ss) 2"
  by (induction ss) (simp_all add: events_Cons)

lemma sorted_phases:
  "sorted (replicate k (0::nat) @ replicate m 1 @ replicate n 2)"
  by (auto simp add: sorted_append)

lemma two_runs_take:
  assumes "two_runs xs"
  shows "two_runs (take n xs)"
proof -
  from assms obtain olds news where xs: "xs = olds @ news" "sorted olds" "sorted news"
    unfolding two_runs_def by blast
  then have "take n xs = take n olds @ take (n - length olds) news"
    "sorted (take n olds)" "sorted (take (n - length olds) news)"
    by (simp_all add: sorted_wrt_take)
  then show ?thesis unfolding two_runs_def by blast
qed

lemma candidates_shape:
  assumes "sorted old" "sorted pulled" "set old \<inter> set pulled = {}"
  shows "two_runs (delete_candidates_of a old pulled)"
    and "no_delete a \<Longrightarrow> delete_candidates_of a old pulled = []"
    and "delete_old_only a \<Longrightarrow> sorted (delete_candidates_of a old pulled)"
    and "\<not> no_delete a \<Longrightarrow> \<not> delete_old_only a \<Longrightarrow>
           delete_candidates_of a old pulled = dict_fromkeys old @ dict_fromkeys pulled \<and>
           sorted (dict_fromkeys old) \<and> sorted (dict_fromkeys pulled)"
proof -
  have default: "dict_fromkeys (old @ pulled) = dict_fromkeys old @ dict_fromkeys pulled"
    using assms(3) by (rule dict_fromkeys_append_disjoint)
  have runs: "sorted (dict_fromkeys old)" "sorted (dict_fromkeys pulled)"
    using assms(1,2) by (simp_all add: sorted_dict_fromkeys)
  show "two_runs (delete_candidates_of a old pulled)"
  proof (cases "no_delete a")
    case True
    then show ?thesis by (simp add: delete_candidates_of_def two_runs_def)
  next
    case no: False
    show ?thesis
    proof (cases "delete_old_only a")
      case True
      with no assms(1) have "delete_candidates_of a old pulled = old @ [] \<and> sorted old
          \<and> sorted ([]::pystr list)"
        by (simp add: delete_candidates_of_def)
      then show ?thesis unfolding two_runs_def by blast
    next
      case False
      with no default runs show ?thesis
        unfolding two_runs_def by (auto simp add: delete_candidates_of_def)
    qed
  qed
  show "no_delete a \<Longrightarrow> delete_candidates_of a old pulled = []"
    by (simp add: delete_candidates_of_def)
  show "delete_old_only a \<Longrightarrow> sorted (delete_candidates_of a old pulled)"
    using assms(1) by (simp add: delete_candidates_of_def)
  show "\<not> no_delete a \<Longrightarrow> \<not> delete_old_only a \<Longrightarrow>
           delete_candidates_of a old pulled = dict_fromkeys old @ dict_fromkeys pulled \<and>
           sorted (dict_fromkeys old) \<and> sorted (dict_fromkeys pulled)"
    using default runs by (simp add: delete_candidates_of_def)
qed

lemma device_sessions_sorted:
  assumes "list_device_sessions e (device_dir (a::args)) = Inr ds"
  shows "sorted ds"
proof -
  have "ds = sort [name \<leftarrow> listed_names e a. fullmatch SESSION_PATTERN name]"
    using assms by (rule list_device_sessions_Inr(2))
  then show ?thesis by simp
qed

lemma plan_sorted:
  "sorted ds \<Longrightarrow> sorted (new_sessions_of ds lb)"
  "sorted ds \<Longrightarrow> sorted (old_sessions_of ds lb)"
  by (simp_all add: new_sessions_of_def old_sessions_of_def sorted_wrt_filter)

lemma plan_disjoint:
  "fst (pull_loop e a k (new_sessions_of ds lb)) = Inr (pulled, pfailed) \<Longrightarrow>
     set (old_sessions_of ds lb) \<inter> set pulled = {}"
  by (drule pull_loop_ok_subset) (auto simp add: new_sessions_of_def old_sessions_of_def)

lemma run_shape_blank:
  assumes "events r = pre" "\<forall>ev \<in> set pre. phase ev = 0" "blank r"
  shows "run_shape a r pre [] []"
  using assms by (simp add: run_shape_def blank_fields two_runs_def)

lemma sync_sessions_shape:
  assumes ds: "sorted ds"
  shows "\<exists>pre pulls deletes. run_shape a (sync_sessions a e ds) pre pulls deletes"
proof -
  let ?pre = "[AdbDevices, AdbShellLs (device_dir a)]"
  have pre: "\<forall>ev \<in> set ?pre. phase ev = 0" by simp
  show ?thesis
  proof (cases "list_local_sessions e")
    case (Inl exc)
    then have "sync_sessions a e ds = uncaught exc ?pre"
      by (rule sync_sessions_unreadable)
    then have "run_shape a (sync_sessions a e ds) ?pre [] []"
      using pre by (intro run_shape_blank) (simp_all only: uncaught_fields blank_uncaught)
    then show ?thesis by blast
  next
    case lb: (Inr lb)
    let ?new = "new_sessions_of ds lb" and ?old = "old_sessions_of ds lb"
    from ds have new: "sorted ?new" and old: "sorted ?old" by (simp_all add: plan_sorted)
    show ?thesis
    proof (cases "fst (pull_loop e a 0 ?new)")
      case (Inl exc)
      obtain n where n: "snd (pull_loop e a 0 ?new) = map (pull_event a) (take n ?new)"
        using pull_loop_events_prefix by blast
      have run: "sync_sessions a e ds = uncaught exc (?pre @ map (pull_event a) (take n ?new))"
        using sync_sessions_pull_raised [OF lb Inl] by (simp only: n)
      have "sorted (take n ?new)" using new by (rule sorted_wrt_take)
      moreover have "two_runs []" by (simp add: two_runs_def)
      ultimately have "run_shape a (sync_sessions a e ds) ?pre (take n ?new) []"
        unfolding run_shape_def run uncaught_fields using pre by simp
      then show ?thesis by blast
    next
      case (Inr both)
      then have pulls: "fst (pull_loop e a 0 ?new) = Inr (fst both, snd both)" by simp
      let ?cands = "delete_candidates_of a ?old (fst both)"
      have pulled: "sorted (fst both)"
        using pulls new by (rule pull_loop_ok_sorted)
      have disjoint: "set ?old \<inter> set (fst both) = {}"
        using pulls by (rule plan_disjoint)
      note shape = candidates_shape [OF old pulled disjoint, of a]
      show ?thesis
      proof (cases "fst (delete_loop e a 0 ?cands)")
        case (Inl exc)
        obtain m where m: "snd (delete_loop e a 0 ?cands)
                             = map (delete_event a) (take m ?cands)"
          using delete_loop_events_prefix by blast
        have run: "sync_sessions a e ds = uncaught exc (?pre @ map (pull_event a) ?new
                                 @ map (delete_event a) (take m ?cands))"
          using sync_sessions_delete_raised [OF lb pulls Inl] by (simp only: m)
        have "two_runs (take m ?cands)"
          using shape(1) by (rule two_runs_take)
        moreover have "no_delete a \<longrightarrow> take m ?cands = []"
          using shape(2) by simp
        moreover have "delete_old_only a \<longrightarrow> sorted (take m ?cands)"
          using shape(3) by (simp add: sorted_wrt_take)
        ultimately have "run_shape a (sync_sessions a e ds) ?pre ?new (take m ?cands)"
          unfolding run_shape_def run uncaught_fields using new pre by simp
        then show ?thesis by blast
      next
        case (Inr both')
        then have deletes: "fst (delete_loop e a 0 ?cands) = Inr (fst both', snd both')"
          by simp
        note fields = done_fields [OF lb pulls deletes]
        have "no_delete a \<longrightarrow> ?cands = []" "delete_old_only a \<longrightarrow> sorted ?cands"
          using shape(2,3) by blast+
        then have "run_shape a (sync_sessions a e ds) ?pre ?new ?cands"
          unfolding run_shape_def fields using new shape(1) pre by simp
        then show ?thesis by blast
      qed
    qed
  qed
qed

lemma main_shape: "\<exists>pre pulls deletes. run_shape a (main a e) pre pulls deletes"
proof (cases a e rule: main_stages)
  case (mkdir exc)
  have "run_shape a (main a e) [] [] []"
    unfolding mkdir(2) by (rule run_shape_blank) (simp_all add: uncaught_fields blank_uncaught)
  then show ?thesis by blast
next
  case adb
  have "run_shape a (main a e) [] [] []"
    unfolding adb(3)
    by (rule run_shape_blank) (simp_all add: early_return_fields blank_early_return)
  then show ?thesis by blast
next
  case (device exc)
  have "run_shape a (main a e) [AdbDevices] [] []"
    unfolding device(4)
    by (rule run_shape_blank)
       (simp_all add: except_RuntimeError_fields blank_except_RuntimeError)
  then show ?thesis by blast
next
  case (listing serial exc)
  have "run_shape a (main a e) [AdbDevices, AdbShellLs (device_dir a)] [] []"
    unfolding listing(5)
    by (rule run_shape_blank)
       (simp_all add: except_RuntimeError_fields blank_except_RuntimeError)
  then show ?thesis by blast
next
  case (no_session serial)
  have "run_shape a (main a e) [AdbDevices, AdbShellLs (device_dir a)] [] []"
    unfolding no_session(5)
    by (rule run_shape_blank) (simp_all add: early_return_fields blank_early_return)
  then show ?thesis by blast
next
  case (sync serial ds)
  from sync(4) have "sorted ds" by (rule device_sessions_sorted)
  then show ?thesis
    unfolding sync(6) by (rule sync_sessions_shape)
qed

lemma preflight_events:
  "\<forall>ev \<in> set pre. phase ev = 0 \<Longrightarrow>
     map phase pre = replicate (length pre) 0 \<and> pulls_of pre = [] \<and> deletes_of pre = []"
proof (induction pre)
  case Nil
  show ?case by simp
next
  case (Cons ev pre)
  then show ?case by (cases ev) simp_all
qed

lemma run_shape_events:
  assumes "run_shape a r pre pulls deletes"
  shows "map phase (events r)
           = replicate (length pre) 0 @ replicate (length pulls) 1 @ replicate (length deletes) 2"
    and "pulls_of (events r) = pulls"
    and "deletes_of (events r) = deletes"
proof -
  from assms have ev: "events r = pre @ map (pull_event a) pulls @ map (delete_event a) deletes"
    and pre: "\<forall>ev \<in> set pre. phase ev = 0"
    by (simp_all add: run_shape_def)
  note pre' = preflight_events [OF pre]
  show "map phase (events r)
           = replicate (length pre) 0 @ replicate (length pulls) 1 @ replicate (length deletes) 2"
    by (simp add: ev pre' phase_pull_events phase_delete_events del: map_map One_nat_def)
  show "pulls_of (events r) = pulls"
    by (simp add: ev pre' pulls_of_append pulls_of_pull_events pulls_of_delete_events)
  show "deletes_of (events r) = deletes"
    by (simp add: ev pre' deletes_of_append deletes_of_pull_events deletes_of_delete_events)
qed

lemma default_candidates_runs:
  assumes "\<not> no_delete a" "\<not> delete_old_only a"
  shows "delete_candidates (main a e)
           = dict_fromkeys (old_sessions (main a e)) @ dict_fromkeys (pulled_ok (main a e)) \<and>
         sorted (dict_fromkeys (old_sessions (main a e))) \<and>
         sorted (dict_fromkeys (pulled_ok (main a e)))"
proof (cases a e rule: main_cases)
  case blank
  then show ?thesis by (simp add: blank_fields dict_fromkeys_def)
next
  case (finished serial ds lb pulled pfailed deleted dfailed)
  note fields = done_fields [OF finished(6-8)]
  from finished(4) have "sorted ds" by (rule device_sessions_sorted)
  then have old: "sorted (old_sessions_of ds lb)" and new: "sorted (new_sessions_of ds lb)"
    by (simp_all add: plan_sorted)
  have pulled: "sorted pulled"
    using finished(7) new by (rule pull_loop_ok_sorted)
  have disjoint: "set (old_sessions_of ds lb) \<inter> set pulled = {}"
    using finished(7) by (rule plan_disjoint)
  from candidates_shape(4) [OF old pulled disjoint assms] show ?thesis
    unfolding finished(9) fields .
qed

section \<open>The example runs, evaluated\<close>

lemma sessions_valid:
  "fullmatch SESSION_PATTERN session_a" "fullmatch SESSION_PATTERN session_b"
  "fullmatch SESSION_PATTERN session_c" "\<not> fullmatch SESSION_PATTERN (py ''notes.txt'')"
  by (simp_all add: fullmatch_session_shape session_shape_def session_a_def session_b_def
        session_c_def py_def isdecimal_def decimal_zeros_def)

lemma sessions_distinct:
  "session_a \<noteq> session_b" "session_a \<noteq> session_c" "session_b \<noteq> session_c"
  "session_b \<noteq> session_a" "session_c \<noteq> session_a" "session_c \<noteq> session_b"
  by (simp_all add: session_a_def session_b_def session_c_def py_def)

lemma sessions_ordered:
  "session_a < session_b" "session_b < session_c" "session_a < session_c"
  by (simp_all add: session_a_def session_b_def session_c_def py_def)

lemma default_args_flags:
  "\<not> dry_run default_args" "\<not> no_delete default_args" "\<not> delete_old_only default_args"
  "device_dir default_args = DEFAULT_DEVICE_DIR"
  by (simp_all add: default_args_def)

lemma one_device_scanned:
  "scan_devices (drop 1 (splitlines one_device)) = ([headset], [])"
  by (simp add: one_device_def headset_def py_def splitlines_def linebreak_def strip_def
        isspace_def split_def Let_def)

lemma three_sessions_names:
  "map (\<lambda>raw. replace_cr (strip raw)) (splitlines three_sessions) =
     [session_a, session_b, session_c, py ''notes.txt'']"
  by (simp add: three_sessions_def session_a_def session_b_def session_c_def py_def
        splitlines_def linebreak_def strip_def isspace_def replace_cr_def)

lemma one_device_connected:
  "adb_devices e = Inr (ok_result one_device) \<Longrightarrow> ensure_device_connected e = Inr headset"
  by (simp add: ensure_device_connected_def run_checked_cases ok_result_def
        one_device_scanned del: One_nat_def)

lemma one_device_preflight:
  "mkdir_local_dir e = None \<Longrightarrow> which_adb e \<Longrightarrow> adb_devices e = Inr (ok_result one_device) \<Longrightarrow>
     preflight_passes e"
  by (simp add: preflight_passes_def ensure_adb_available_def one_device_connected)

lemma three_sessions_listed:
  "adb_shell_ls e dd = Inr (ok_result three_sessions) \<Longrightarrow>
     list_device_sessions e dd = Inr [session_a, session_b, session_c]"
  using sessions_ordered
  by (simp add: list_device_sessions_def run_checked_cases ok_result_def
        three_sessions_names sessions_valid less_imp_le)

lemma like_quest_preflight: "like_quest e \<Longrightarrow> preflight_passes e"
  by (simp add: like_quest_def preflight_passes_def ensure_adb_available_def)

lemma like_quest_listed:
  "like_quest e \<Longrightarrow> list_device_sessions e dd = Inr [session_a, session_b, session_c]"
  by (rule three_sessions_listed) (simp add: like_quest_def)

lemma like_quest_local: "like_quest e \<Longrightarrow> list_local_sessions e = Inr {session_c}"
  by (simp add: like_quest_def list_local_sessions_def sessions_valid)

lemma three_sessions_plan:
  "new_sessions_of [session_a, session_b, session_c] {session_c} = [session_a, session_b]"
  "old_sessions_of [session_a, session_b, session_c] {session_c} = [session_c]"
  by (simp_all add: new_sessions_of_def old_sessions_of_def sessions_distinct)

lemma like_quest_main:
  assumes "like_quest e"
  shows "main a e = sync_sessions a e [session_a, session_b, session_c]"
  using assms like_quest_listed [OF assms]
  by (intro main_sync [where serial = headset]) (simp_all add: like_quest_def)

lemma like_quest_run:
  assumes "like_quest e"
    and "fst (pull_loop e a 0 [session_a, session_b]) = Inr (pulled, pfailed)"
    and "fst (delete_loop e a 0 (delete_candidates_of a [session_c] pulled))
           = Inr (deleted, dfailed)"
  shows "exit_status (main a e) = (if pfailed \<noteq> [] \<or> dfailed \<noteq> [] then 1 else 0)"
    and "events (main a e) = [AdbDevices, AdbShellLs (device_dir a)]
               @ map (pull_event a) [session_a, session_b]
               @ map (delete_event a) (delete_candidates_of a [session_c] pulled)"
    and "traceback (main a e) = None"
    and "device_sessions (main a e) = [session_a, session_b, session_c]"
    and "local_before (main a e) = {session_c}"
    and "new_sessions (main a e) = [session_a, session_b]"
    and "old_sessions (main a e) = [session_c]"
    and "pulled_ok (main a e) = pulled"
    and "pull_failed (main a e) = pfailed"
    and "delete_candidates (main a e) = delete_candidates_of a [session_c] pulled"
    and "deleted_ok (main a e) = deleted"
    and "delete_failed (main a e) = dfailed"
proof -
  note local = like_quest_local [OF assms(1)]
  have pulls: "fst (pull_loop e a 0
                 (new_sessions_of [session_a, session_b, session_c] {session_c}))
               = Inr (pulled, pfailed)"
    using assms(2) by (simp add: three_sessions_plan)
  have deletes: "fst (delete_loop e a 0 (delete_candidates_of a
                   (old_sessions_of [session_a, session_b, session_c] {session_c}) pulled))
                 = Inr (deleted, dfailed)"
    using assms(3) by (simp add: three_sessions_plan)
  note fields = done_fields [OF local pulls deletes, unfolded three_sessions_plan]
  show "exit_status (main a e) = (if pfailed \<noteq> [] \<or> dfailed \<noteq> [] then 1 else 0)"
    and "events (main a e) = [AdbDevices, AdbShellLs (device_dir a)]
               @ map (pull_event a) [session_a, session_b]
               @ map (delete_event a) (delete_candidates_of a [session_c] pulled)"
    and "traceback (main a e) = None"
    and "device_sessions (main a e) = [session_a, session_b, session_c]"
    and "local_before (main a e) = {session_c}"
    and "new_sessions (main a e) = [session_a, session_b]"
    and "old_sessions (main a e) = [session_c]"
    and "pulled_ok (main a e) = pulled"
    and "pull_failed (main a e) = pfailed"
    and "delete_candidates (main a e) = delete_candidates_of a [session_c] pulled"
    and "deleted_ok (main a e) = deleted"
    and "delete_failed (main a e) = dfailed"
    unfolding like_quest_main [OF assms(1)] by (rule fields)+
qed

lemma like_quest_quest: "like_quest quest"
  by (simp add: like_quest_def one_device_connected quest_def)

lemma like_quest_flaky: "like_quest flaky"
  by (simp add: like_quest_def one_device_connected flaky_def quest_def)

lemma quest_pulls: "pull_succeeds quest a k s"
  by (simp add: pull_succeeds_def pull_session_result quest_def)

lemma quest_deletes: "fst (delete_session quest k s dd dry) = Inr True"
  by (simp add: delete_session_result quest_def ok_result_def)

lemma quest_pull_loop: "fst (pull_loop quest a k ss) = Inr (ss, [])"
  by (rule pull_loop_all_ok) (rule quest_pulls)

lemma quest_delete_loop: "fst (delete_loop quest a k ss) = Inr (ss, [])"
  by (rule delete_loop_all_ok) (rule quest_deletes)

lemmas quest_run = like_quest_run [OF like_quest_quest quest_pull_loop quest_delete_loop]

lemma flaky_pulls: "pull_succeeds flaky default_args k s \<longleftrightarrow> s \<noteq> session_b"
  by (simp add: pull_succeeds_def pull_session_result flaky_def quest_def default_args_def)

lemma flaky_pull_loop:
  "fst (pull_loop flaky default_args 0 [session_a, session_b]) = Inr ([session_a], [session_b])"
  by (simp add: pull_loop_Cons pull_session_result flaky_def quest_def default_args_flags
        sessions_distinct)

lemma flaky_deletes: "fst (delete_session flaky k s dd dry) = Inr True"
  by (simp add: delete_session_result flaky_def quest_def ok_result_def)

lemma flaky_delete_loop: "fst (delete_loop flaky a k ss) = Inr (ss, [])"
  by (rule delete_loop_all_ok) (rule flaky_deletes)

lemmas flaky_run = like_quest_run [OF like_quest_flaky flaky_pull_loop flaky_delete_loop]

lemma default_candidates:
  "delete_candidates_of default_args [session_c] [session_a] = [session_c, session_a]"
  "delete_candidates_of default_args [session_c] [session_a, session_b]
     = [session_c, session_a, session_b]"
  by (simp_all add: delete_candidates_of_def dict_fromkeys_def default_args_flags
        sessions_distinct)








lemma default_events:
  "pull_event default_args s = AdbPull s"
  "delete_event default_args s = AdbShellRm s"
  by (simp_all add: pull_event_def delete_event_def default_args_flags)


lemma unreadable_local_dir_run:
  "preflight_passes unreadable_local_dir"
  "list_device_sessions unreadable_local_dir dd = Inr [session_a, session_b, session_c]"
  "main a unreadable_local_dir = uncaught OSError [AdbDevices, AdbShellLs (device_dir a)]"
proof -
  show pre: "preflight_passes unreadable_local_dir"
    by (rule one_device_preflight) (simp_all add: unreadable_local_dir_def quest_def)
  show listed: "list_device_sessions unreadable_local_dir dd
                  = Inr [session_a, session_b, session_c]" for dd
    by (rule three_sessions_listed) (simp add: unreadable_local_dir_def quest_def)
  have "main a unreadable_local_dir
          = sync_sessions a unreadable_local_dir [session_a, session_b, session_c]"
    using listed [of "device_dir a"]
    by (intro main_sync [where serial = headset])
       (simp_all add: one_device_connected unreadable_local_dir_def quest_def)
  moreover have "list_local_sessions unreadable_local_dir = Inl OSError"
    by (simp add: list_local_sessions_def unreadable_local_dir_def)
  ultimately show "main a unreadable_local_dir
                     = uncaught OSError [AdbDevices, AdbShellLs (device_dir a)]"
    by (simp add: sync_sessions_unreadable)
qed

lemma count_list_filter:
  "count_list (filter P xs) s = (if P s then count_list xs s else 0)"
  by (induction xs) auto

lemma count_list_sort:
  fixes xs :: "'a::linorder list"
  shows "count_list (sort xs) s = count_list xs s"
  by (simp add: count_list_eq_length_filter filter_sort)

lemma device_sessions_count:
  assumes "list_device_sessions e (device_dir (a::args)) = Inr ds"
  shows "count_list ds s =
           (if fullmatch SESSION_PATTERN s then count_list (listed_names e a) s else 0)"
proof -
  have "ds = sort [name \<leftarrow> listed_names e a. fullmatch SESSION_PATTERN name]"
    using assms by (rule list_device_sessions_Inr(2))
  then show ?thesis by (simp add: count_list_sort count_list_filter)
qed

lemma listed_twice_names:
  "listed_names (listed_twice session_a) a = [session_a, session_a]"
  "listed_names (listed_twice session_c) a = [session_c, session_c]"
  by (simp_all add: listed_names_def listed_twice_def ok_result_def session_a_def
        session_c_def py_def splitlines_def linebreak_def strip_def isspace_def
        replace_cr_def)

lemma listed_twice_ready:
  "preflight_passes (listed_twice s)" "mkdir_local_dir (listed_twice s) = None"
  "which_adb (listed_twice s)" "ensure_device_connected (listed_twice s) = Inr headset"
  "command_succeeds (adb_shell_ls (listed_twice s) dd)"
  "list_local_sessions (listed_twice s) = Inr {session_c}"
  "fst (pull_loop (listed_twice s) a k ss) = Inr (ss, [])"
  "fst (delete_loop (listed_twice s) a k ss) = Inr (ss, [])"
proof -
  show "preflight_passes (listed_twice s)"
    by (rule one_device_preflight) (simp_all add: listed_twice_def quest_def)
  show "mkdir_local_dir (listed_twice s) = None" "which_adb (listed_twice s)"
    "ensure_device_connected (listed_twice s) = Inr headset"
    by (simp_all add: one_device_connected listed_twice_def quest_def)
  show "command_succeeds (adb_shell_ls (listed_twice s) dd)"
    by (simp add: command_succeeds_def listed_twice_def ok_result_def)
  show "list_local_sessions (listed_twice s) = Inr {session_c}"
    by (simp add: list_local_sessions_def listed_twice_def quest_def sessions_valid)
  show "fst (pull_loop (listed_twice s) a k ss) = Inr (ss, [])"
    by (rule pull_loop_all_ok)
       (simp add: pull_succeeds_def pull_session_result listed_twice_def quest_def)
  show "fst (delete_loop (listed_twice s) a k ss) = Inr (ss, [])"
    by (rule delete_loop_all_ok)
       (simp add: delete_session_result listed_twice_def quest_def ok_result_def)
qed

lemma listed_twice_run:
  assumes names: "listed_names (listed_twice s) a = [s, s]"
    and valid: "fullmatch SESSION_PATTERN s"
  shows "traceback (main a (listed_twice s)) = None"
    and "device_sessions (main a (listed_twice s)) = [s, s]"
    and "local_before (main a (listed_twice s)) = {session_c}"
    and "new_sessions (main a (listed_twice s)) = new_sessions_of [s, s] {session_c}"
    and "old_sessions (main a (listed_twice s)) = old_sessions_of [s, s] {session_c}"
    and "pulled_ok (main a (listed_twice s)) = new_sessions_of [s, s] {session_c}"
    and "delete_candidates (main a (listed_twice s)) =
           delete_candidates_of a (old_sessions_of [s, s] {session_c})
             (new_sessions_of [s, s] {session_c})"
    and "events (main a (listed_twice s)) = [AdbDevices, AdbShellLs (device_dir a)]
           @ map (pull_event a) (new_sessions_of [s, s] {session_c})
           @ map (delete_event a) (delete_candidates_of a (old_sessions_of [s, s] {session_c})
               (new_sessions_of [s, s] {session_c}))"
proof -
  have listed: "list_device_sessions (listed_twice s) (device_dir a) = Inr [s, s]"
    using list_device_sessions_ok [OF listed_twice_ready(5), of s a] valid
    by (simp add: names)
  have main: "main a (listed_twice s) = sync_sessions a (listed_twice s) [s, s]"
    using listed_twice_ready(2-4) listed by (rule main_sync) simp
  have local: "list_local_sessions (listed_twice s) = Inr {session_c}"
    by (rule listed_twice_ready)
  have pulls: "fst (pull_loop (listed_twice s) a 0 (new_sessions_of [s, s] {session_c}))
                 = Inr (new_sessions_of [s, s] {session_c}, [])"
    by (rule listed_twice_ready)
  have deletes: "fst (delete_loop (listed_twice s) a 0
                   (delete_candidates_of a (old_sessions_of [s, s] {session_c})
                      (new_sessions_of [s, s] {session_c})))
                 = Inr (delete_candidates_of a (old_sessions_of [s, s] {session_c})
                          (new_sessions_of [s, s] {session_c}), [])"
    by (rule listed_twice_ready)
  note fields = done_fields [OF local pulls deletes, folded main]
  show "traceback (main a (listed_twice s)) = None"
    and "device_sessions (main a (listed_twice s)) = [s, s]"
    and "local_before (main a (listed_twice s)) = {session_c}"
    and "new_sessions (main a (listed_twice s)) = new_sessions_of [s, s] {session_c}"
    and "old_sessions (main a (listed_twice s)) = old_sessions_of [s, s] {session_c}"
    and "pulled_ok (main a (listed_twice s)) = new_sessions_of [s, s] {session_c}"
    and "delete_candidates (main a (listed_twice s)) =
           delete_candidates_of a (old_sessions_of [s, s] {session_c})
             (new_sessions_of [s, s] {session_c})"
    and "events (main a (listed_twice s)) = [AdbDevices, AdbShellLs (device_dir a)]
           @ map (pull_event a) (new_sessions_of [s, s] {session_c})
           @ map (delete_event a) (delete_candidates_of a (old_sessions_of [s, s] {session_c})
               (new_sessions_of [s, s] {session_c}))"
    by (rule fields)+
qed

section \<open>The plan\<close>

text \<open>
  Claim C2.  For every list of device sessions and every set \<open>local_before\<close>, the new
  and the old sessions together are the device sessions and share no session; the new
  ones are the device sessions outside \<open>local_before\<close> and the old ones those inside.
  These two lists are what \<^verbatim>\<open>main\<close> computes.
\<close>

theorem new_old_partition:
  "set (new_sessions_of ds lb) \<union> set (old_sessions_of ds lb) = set ds \<and>
   set (new_sessions_of ds lb) \<inter> set (old_sessions_of ds lb) = {} \<and>
   set (new_sessions_of ds lb) = set ds - lb \<and>
   set (old_sessions_of ds lb) = set ds \<inter> lb \<and>
   new_sessions (main a e) = new_sessions_of (device_sessions (main a e)) (local_before (main a e)) \<and>
   old_sessions (main a e) = old_sessions_of (device_sessions (main a e)) (local_before (main a e))"
proof -
  have sets: "set (new_sessions_of ds lb) \<union> set (old_sessions_of ds lb) = set ds"
    "set (new_sessions_of ds lb) \<inter> set (old_sessions_of ds lb) = {}"
    "set (new_sessions_of ds lb) = set ds - lb"
    "set (old_sessions_of ds lb) = set ds \<inter> lb"
    by (auto simp add: new_sessions_of_def old_sessions_of_def)
  have "new_sessions (main a e) = new_sessions_of (device_sessions (main a e)) (local_before (main a e)) \<and>
        old_sessions (main a e) = old_sessions_of (device_sessions (main a e)) (local_before (main a e))"
  proof (cases a e rule: main_cases)
    case blank
    then show ?thesis
      by (simp add: blank_fields new_sessions_of_def old_sessions_of_def)
  next
    case (finished serial ds' lb' pulled pfailed deleted dfailed)
    note fields = done_fields [OF finished(6-8)]
    show ?thesis
      unfolding finished(9) by (simp add: fields)
  qed
  with sets show ?thesis by blast
qed

text \<open>
  The run on \<open>quest\<close>: of three device sessions the third is already local.
\<close>

theorem new_old_partition_witness:
  "new_sessions (main default_args quest) = [session_a, session_b] \<and>
   old_sessions (main default_args quest) = [session_c] \<and>
   set [session_a, session_b] \<union> set [session_c] = set [session_a, session_b, session_c] \<and>
   set [session_a, session_b] \<inter> set [session_c] = {}"
  using new_old_partition [of "[session_a, session_b, session_c]" "{session_c}" default_args quest]
  by (auto simp add: quest_run)

section \<open>The deletion policy\<close>

text \<open>
  Claim C7.  With \<^verbatim>\<open>--no-delete\<close> the list \<open>delete_candidates\<close> is empty, whatever the
  device, the local directory, the results of the pulls and the other flags are, also
  with \<^verbatim>\<open>--delete-old-only\<close>.  With \<^verbatim>\<open>--delete-old-only\<close> and without \<^verbatim>\<open>--no-delete\<close>
  it is \<open>old_sessions\<close>, also when new sessions were pulled successfully.
\<close>

theorem delete_flags:
  "(no_delete a \<longrightarrow> delete_candidates_of a old pulled = [] \<and> delete_candidates (main a e) = []) \<and>
   (delete_old_only a \<and> \<not> no_delete a \<longrightarrow>
      delete_candidates_of a old pulled = old \<and>
      delete_candidates (main a e) = old_sessions (main a e))"
proof (cases a e rule: main_cases)
  case blank
  then show ?thesis
    by (simp add: blank_fields delete_candidates_of_def)
next
  case (finished serial ds lb pulled' pfailed deleted dfailed)
  note fields = done_fields [OF finished(6-8)]
  show ?thesis
    unfolding finished(9) by (simp add: fields delete_candidates_of_def)
qed

text \<open>
  On \<open>quest\<close> both new sessions are pulled; with both flags nothing is to be deleted,
  with \<^verbatim>\<open>--delete-old-only\<close> alone only the session that was local before.
\<close>

theorem delete_flags_witness:
  "no_delete (default_args\<lparr>no_delete := True, delete_old_only := True\<rparr>) \<and>
   delete_candidates (main (default_args\<lparr>no_delete := True, delete_old_only := True\<rparr>) quest) = [] \<and>
   delete_old_only (default_args\<lparr>delete_old_only := True\<rparr>) \<and>
   \<not> no_delete (default_args\<lparr>delete_old_only := True\<rparr>) \<and>
   pulled_ok (main (default_args\<lparr>delete_old_only := True\<rparr>) quest) = [session_a, session_b] \<and>
   delete_candidates (main (default_args\<lparr>delete_old_only := True\<rparr>) quest) = [session_c]"
  using delete_flags [of "default_args\<lparr>no_delete := True, delete_old_only := True\<rparr>" "[]" "[]" quest]
        delete_flags [of "default_args\<lparr>delete_old_only := True\<rparr>" "[]" "[]" quest]
  by (simp add: default_args_def quest_run)

text \<open>
  Claim C1.  Under the default policy (neither \<^verbatim>\<open>--no-delete\<close> nor
  \<^verbatim>\<open>--delete-old-only\<close>) every session of \<open>delete_candidates\<close> is in \<open>old_sessions\<close> or in
  \<open>pulled_ok\<close>; \<open>pulled_ok\<close> holds the sessions of \<open>new_sessions\<close> whose pull succeeded
  and \<open>pull_failed\<close> those whose pull failed; and when the outcome of a pull is a
  function of the session (or the device sessions are pairwise different, so that each
  is pulled once), no session of \<open>pull_failed\<close> is in \<open>delete_candidates\<close>.
\<close>

theorem default_deletion_safety:
  assumes "\<not> no_delete a" and "\<not> delete_old_only a"
  shows "set (delete_candidates (main a e)) \<subseteq> set (old_sessions (main a e)) \<union> set (pulled_ok (main a e)) \<and>
         set (pulled_ok (main a e)) \<subseteq> set (new_sessions (main a e)) \<and>
         ((\<forall>s i j. pull_succeeds e a i s = pull_succeeds e a j s) \<or> distinct (device_sessions (main a e))
            \<longrightarrow> set (pull_failed (main a e)) \<inter> set (delete_candidates (main a e)) = {}) \<and>
         (\<forall>s. s \<in> set (pulled_ok (main a e)) \<longleftrightarrow>
            (\<exists>i < length (new_sessions (main a e)).
               new_sessions (main a e) ! i = s \<and> pull_succeeds e a i s)) \<and>
         (\<forall>s. s \<in> set (pull_failed (main a e)) \<longleftrightarrow>
            (\<exists>i < length (new_sessions (main a e)).
               new_sessions (main a e) ! i = s \<and> \<not> pull_succeeds e a i s))"
proof (cases a e rule: main_cases)
  case blank
  then show ?thesis by (simp add: blank_fields)
next
  case (finished serial ds lb pulled pfailed deleted dfailed)
  let ?r = "main a e"
  note fields = done_fields [OF finished(6-8), folded finished(9)]
  have cands: "set (delete_candidates ?r) = set (old_sessions ?r) \<union> set (pulled_ok ?r)"
    using assms by (simp add: fields delete_candidates_of_def set_dict_fromkeys)
  have ok: "s \<in> set (pulled_ok ?r) \<longleftrightarrow>
      (\<exists>i < length (new_sessions ?r). new_sessions ?r ! i = s \<and> pull_succeeds e a i s)" for s
    using pull_loop_ok_iff [OF finished(7), of s] by (simp add: fields)
  have ko: "s \<in> set (pull_failed ?r) \<longleftrightarrow>
      (\<exists>i < length (new_sessions ?r). new_sessions ?r ! i = s \<and> \<not> pull_succeeds e a i s)" for s
    using pull_loop_failed_iff [OF finished(7), of s] by (simp add: fields)
  have pulled: "set (pulled_ok ?r) \<subseteq> set (new_sessions ?r)"
    using ok by auto
  have safe: "set (pull_failed ?r) \<inter> set (delete_candidates ?r) = {}"
    if h: "(\<forall>s i j. pull_succeeds e a i s = pull_succeeds e a j s) \<or> distinct (device_sessions ?r)"
  proof -
    have False if f: "s \<in> set (pull_failed ?r)" and c: "s \<in> set (delete_candidates ?r)" for s
    proof -
      from f obtain j where j: "j < length (new_sessions ?r)" "new_sessions ?r ! j = s"
          "\<not> pull_succeeds e a j s"
        using ko by blast
      then have "s \<in> set (new_sessions ?r)" by (metis nth_mem)
      then have "s \<notin> set (old_sessions ?r)"
        by (simp add: fields new_sessions_of_def old_sessions_of_def)
      with c cands have "s \<in> set (pulled_ok ?r)" by blast
      then obtain i where i: "i < length (new_sessions ?r)" "new_sessions ?r ! i = s"
          "pull_succeeds e a i s"
        using ok by blast
      from h show False
      proof
        assume "\<forall>s i j. pull_succeeds e a i s = pull_succeeds e a j s"
        with i j show False by blast
      next
        assume "distinct (device_sessions ?r)"
        then have "distinct (new_sessions ?r)"
          by (simp add: fields new_sessions_of_def)
        with i j have "i = j" by (metis nth_eq_iff_index_eq)
        with i j show False by blast
      qed
    qed
    then show ?thesis by blast
  qed
  from cands pulled safe ok ko show ?thesis by blast
qed

text \<open>
  On \<open>flaky\<close> the pull of the second session fails at every call: it is not deleted,
  while the session that was local and the one that was pulled are.
\<close>

theorem default_deletion_safety_witness:
  "\<not> no_delete default_args \<and> \<not> delete_old_only default_args \<and>
   (\<forall>s i j. pull_succeeds flaky default_args i s = pull_succeeds flaky default_args j s) \<and>
   pulled_ok (main default_args flaky) = [session_a] \<and>
   pull_failed (main default_args flaky) = [session_b] \<and>
   delete_candidates (main default_args flaky) = [session_c, session_a] \<and>
   set (pull_failed (main default_args flaky)) \<inter> set (delete_candidates (main default_args flaky)) = {}"
proof -
  have flags: "\<not> no_delete default_args" "\<not> delete_old_only default_args"
    by (simp_all add: default_args_def)
  have fixed: "\<forall>s i j. pull_succeeds flaky default_args i s = pull_succeeds flaky default_args j s"
    by (simp add: flaky_pulls)
  from default_deletion_safety [OF flags, of flaky] fixed
  have "set (pull_failed (main default_args flaky)) \<inter> set (delete_candidates (main default_args flaky)) = {}"
    by blast
  with flags fixed show ?thesis by (simp add: flaky_run default_candidates)
qed

section \<open>Pulling one session, and dry runs\<close>

text \<open>
  Claim C8.  When \<^verbatim>\<open>pull_session\<close> runs the external pull command, that is outside a
  dry run, it reports success if and only if the command exits with status zero and
  the directory \<^verbatim>\<open>local_dir/session\<close> exists afterwards; a zero exit status without the
  directory is a failure, and so is a nonzero exit status.  (In a dry run no command
  runs and nothing is checked; that case is claim C9.)
\<close>

theorem pull_session_success:
  "(\<not> dry \<longrightarrow>
      (fst (pull_session e k s dd dry) = Inr True \<longleftrightarrow>
         adb_pull e k (dd @ py ''/'' @ s) = Inr 0 \<and> is_dir_after_pull e k s = Inr True) \<and>
      (adb_pull e k (dd @ py ''/'' @ s) = Inr 0 \<and> is_dir_after_pull e k s = Inr False \<longrightarrow>
         fst (pull_session e k s dd dry) = Inr False) \<and>
      (\<forall>code. adb_pull e k (dd @ py ''/'' @ s) = Inr code \<and> code \<noteq> 0 \<longrightarrow>
         fst (pull_session e k s dd dry) = Inr False) \<and>
      snd (pull_session e k s dd dry) = [AdbPull s]) \<and>
   (dry \<longrightarrow> pull_session e k s dd dry = (Inr True, [DryRunPull s]))"
  by (auto simp add: pull_session_def Let_def split: sum.splits)

text \<open>
  On \<open>flaky\<close> the pull of the second session exits with status zero and leaves no
  directory: a failure.  The pull of the first session succeeds, and a pull that exits
  with status 1 fails.
\<close>

theorem pull_session_success_witness:
  "adb_pull flaky 0 (DEFAULT_DEVICE_DIR @ py ''/'' @ session_b) = Inr 0 \<and>
   is_dir_after_pull flaky 0 session_b = Inr False \<and>
   fst (pull_session flaky 0 session_b DEFAULT_DEVICE_DIR False) = Inr False \<and>
   adb_pull flaky 0 (DEFAULT_DEVICE_DIR @ py ''/'' @ session_a) = Inr 0 \<and>
   is_dir_after_pull flaky 0 session_a = Inr True \<and>
   fst (pull_session flaky 0 session_a DEFAULT_DEVICE_DIR False) = Inr True \<and>
   snd (pull_session flaky 0 session_a DEFAULT_DEVICE_DIR False) = [AdbPull session_a] \<and>
   adb_pull (quest\<lparr>adb_pull := (\<lambda>_ _. Inr 1)\<rparr>) 0 (DEFAULT_DEVICE_DIR @ py ''/'' @ session_a)
     = Inr 1 \<and>
   fst (pull_session (quest\<lparr>adb_pull := (\<lambda>_ _. Inr 1)\<rparr>) 0 session_a DEFAULT_DEVICE_DIR False)
     = Inr False \<and>
   pull_session flaky 0 session_b DEFAULT_DEVICE_DIR True = (Inr True, [DryRunPull session_b])"
proof -
  have b: "adb_pull flaky 0 (DEFAULT_DEVICE_DIR @ py ''/'' @ session_b) = Inr 0"
      "is_dir_after_pull flaky 0 session_b = Inr False"
    and a: "adb_pull flaky 0 (DEFAULT_DEVICE_DIR @ py ''/'' @ session_a) = Inr 0"
      "is_dir_after_pull flaky 0 session_a = Inr True"
    and c: "adb_pull (quest\<lparr>adb_pull := (\<lambda>_ _. Inr 1)\<rparr>) 0
              (DEFAULT_DEVICE_DIR @ py ''/'' @ session_a) = Inr 1"
    by (simp_all add: flaky_def quest_def sessions_distinct)
  from pull_session_success [of False flaky 0 session_b DEFAULT_DEVICE_DIR] b
  have 1: "fst (pull_session flaky 0 session_b DEFAULT_DEVICE_DIR False) = Inr False"
    by blast
  from pull_session_success [of False flaky 0 session_a DEFAULT_DEVICE_DIR] a
  have 2: "fst (pull_session flaky 0 session_a DEFAULT_DEVICE_DIR False) = Inr True"
    "snd (pull_session flaky 0 session_a DEFAULT_DEVICE_DIR False) = [AdbPull session_a]"
    by blast+
  from pull_session_success [of False "quest\<lparr>adb_pull := (\<lambda>_ _. Inr 1)\<rparr>" 0 session_a
      DEFAULT_DEVICE_DIR] c
  have 3: "fst (pull_session (quest\<lparr>adb_pull := (\<lambda>_ _. Inr 1)\<rparr>) 0 session_a
                  DEFAULT_DEVICE_DIR False) = Inr False"
    by simp
  from pull_session_success [of True flaky 0 session_b DEFAULT_DEVICE_DIR]
  have 4: "pull_session flaky 0 session_b DEFAULT_DEVICE_DIR True
             = (Inr True, [DryRunPull session_b])"
    by blast
  from a b c 1 2 3 4 show ?thesis by blast
qed

text \<open>
  Claim C9, as the code has it.  In a dry run \<^verbatim>\<open>pull_session\<close> and \<^verbatim>\<open>delete_session\<close>
  report success for every session, so \<open>pull_failed\<close> and \<open>delete_failed\<close> are empty.
  In a dry run in which the preflight checks pass and the remote listing command
  succeeds, the process exits with status 0 when no uncaught exception ends the run, and
  with status 1 when one does; none does when the local directory can be read.
\<close>

theorem dry_run_succeeds:
  "fst (pull_session e k s dd True) = Inr True \<and>
   fst (delete_session e k s dd True) = Inr True \<and>
   (dry_run a \<longrightarrow> pull_failed (main a e) = [] \<and> delete_failed (main a e) = []) \<and>
   (dry_run a \<and> preflight_passes e \<and> command_succeeds (adb_shell_ls e (device_dir a)) \<longrightarrow>
      (\<not> isl (list_local_sessions e) \<longrightarrow> traceback (main a e) = None) \<and>
      (traceback (main a e) = None \<longrightarrow> exit_status (main a e) = 0) \<and>
      (traceback (main a e) \<noteq> None \<longrightarrow> exit_status (main a e) = 1))"
proof -
  have calls: "fst (pull_session e k s dd True) = Inr True"
    "fst (delete_session e k s dd True) = Inr True"
    by (simp_all add: pull_session_result delete_session_result)
  have lists: "pull_failed (main a e) = [] \<and> delete_failed (main a e) = []" if "dry_run a"
  proof (cases a e rule: main_cases)
    case blank
    then show ?thesis by (simp add: blank_fields)
  next
    case (finished serial ds lb pulled pfailed deleted dfailed)
    note fields = done_fields [OF finished(6-8)]
    from finished(7,8) that have "pfailed = []" "dfailed = []"
      by (simp_all add: pull_loop_dry_run delete_loop_dry_run)
    then show ?thesis
      unfolding finished(9) by (simp add: fields)
  qed
  have status: "(\<not> isl (list_local_sessions e) \<longrightarrow> traceback (main a e) = None) \<and>
      (traceback (main a e) = None \<longrightarrow> exit_status (main a e) = 0) \<and>
      (traceback (main a e) \<noteq> None \<longrightarrow> exit_status (main a e) = 1)"
    if dry: "dry_run a" and pre: "preflight_passes e"
      and ls: "command_succeeds (adb_shell_ls e (device_dir a))"
  proof -
    from pre obtain serial where ready: "mkdir_local_dir e = None" "which_adb e"
        "ensure_device_connected e = Inr serial"
      by (auto simp add: preflight_passes_iff)
    define ds where "ds = sort [name \<leftarrow> listed_names e a. fullmatch SESSION_PATTERN name]"
    have listed: "list_device_sessions e (device_dir a) = Inr ds"
      using ls by (simp add: list_device_sessions_ok ds_def)
    show ?thesis
    proof (cases "ds = []")
      case True
      with listed have "list_device_sessions e (device_dir a) = Inr []" by simp
      with ready have "main a e = early_return 0 [AdbDevices, AdbShellLs (device_dir a)] None"
        by (rule main_nothing_found)
      then show ?thesis by (simp add: early_return_fields)
    next
      case False
      with ready listed have main: "main a e = sync_sessions a e ds" by (rule main_sync)
      show ?thesis
      proof (cases "list_local_sessions e")
        case (Inl exc)
        then show ?thesis
          by (simp add: main sync_sessions_unreadable uncaught_fields)
      next
        case (Inr lb)
        have pulls: "fst (pull_loop e a 0 (new_sessions_of ds lb))
                       = Inr (new_sessions_of ds lb, [])"
          using dry by (rule pull_loop_dry_run)
        have deletes: "fst (delete_loop e a 0
                         (delete_candidates_of a (old_sessions_of ds lb) (new_sessions_of ds lb)))
                       = Inr (delete_candidates_of a (old_sessions_of ds lb)
                                (new_sessions_of ds lb), [])"
          using dry by (rule delete_loop_dry_run)
        note fields = done_fields [OF Inr pulls deletes]
        show ?thesis
          by (simp add: main fields)
      qed
    qed
  qed
  from calls lists status show ?thesis by blast
qed

text \<open>
  A dry run on \<open>flaky\<close> exits with status 0, where the real run exits with status 1.
  A dry run on \<open>unreadable_local_dir\<close> is ended by the \<^verbatim>\<open>OSError\<close> of \<^verbatim>\<open>iterdir\<close> and
  exits with status 1.
\<close>

theorem dry_run_succeeds_witness:
  "dry_run (default_args\<lparr>dry_run := True\<rparr>) \<and> preflight_passes flaky \<and>
   command_succeeds (adb_shell_ls flaky (device_dir (default_args\<lparr>dry_run := True\<rparr>))) \<and>
   \<not> isl (list_local_sessions flaky) \<and>
   pull_failed (main (default_args\<lparr>dry_run := True\<rparr>) flaky) = [] \<and>
   delete_failed (main (default_args\<lparr>dry_run := True\<rparr>) flaky) = [] \<and>
   traceback (main (default_args\<lparr>dry_run := True\<rparr>) flaky) = None \<and>
   exit_status (main (default_args\<lparr>dry_run := True\<rparr>) flaky) = 0 \<and>
   exit_status (main default_args flaky) = 1 \<and>
   preflight_passes unreadable_local_dir \<and>
   command_succeeds (adb_shell_ls unreadable_local_dir
                       (device_dir (default_args\<lparr>dry_run := True\<rparr>))) \<and>
   traceback (main (default_args\<lparr>dry_run := True\<rparr>) unreadable_local_dir) = Some OSError \<and>
   exit_status (main (default_args\<lparr>dry_run := True\<rparr>) unreadable_local_dir) = 1"
proof -
  have dry: "dry_run (default_args\<lparr>dry_run := True\<rparr>)" by simp
  have pre: "preflight_passes flaky"
    by (rule like_quest_preflight) (rule like_quest_flaky)
  have ls: "command_succeeds (adb_shell_ls flaky (device_dir (default_args\<lparr>dry_run := True\<rparr>)))"
    by (simp add: command_succeeds_def flaky_def quest_def ok_result_def)
  have local: "\<not> isl (list_local_sessions flaky)"
    by (simp add: like_quest_local [OF like_quest_flaky])
  have real: "exit_status (main default_args flaky) = 1"
    by (simp add: flaky_run)
  note pre' = unreadable_local_dir_run(1)
  have ls': "command_succeeds (adb_shell_ls unreadable_local_dir
                                 (device_dir (default_args\<lparr>dry_run := True\<rparr>)))"
    by (simp add: command_succeeds_def unreadable_local_dir_def quest_def ok_result_def)
  have raised: "traceback (main (default_args\<lparr>dry_run := True\<rparr>) unreadable_local_dir)
                  = Some OSError"
    by (simp add: unreadable_local_dir_run uncaught_fields)
  from dry_run_succeeds [of flaky 0 session_a DEFAULT_DEVICE_DIR "default_args\<lparr>dry_run := True\<rparr>"]
    dry pre ls local
  have 1: "pull_failed (main (default_args\<lparr>dry_run := True\<rparr>) flaky) = []"
    "delete_failed (main (default_args\<lparr>dry_run := True\<rparr>) flaky) = []"
    "traceback (main (default_args\<lparr>dry_run := True\<rparr>) flaky) = None"
    "exit_status (main (default_args\<lparr>dry_run := True\<rparr>) flaky) = 0"
    by blast+
  from dry_run_succeeds [of unreadable_local_dir 0 session_a DEFAULT_DEVICE_DIR
      "default_args\<lparr>dry_run := True\<rparr>"] dry pre' ls' raised
  have 2: "exit_status (main (default_args\<lparr>dry_run := True\<rparr>) unreadable_local_dir) = 1"
    by simp
  from dry pre ls local real pre' ls' raised 1 2 show ?thesis by blast
qed

text \<open>
  The claim as stated asks only for the preflight checks to pass.  On
  \<open>no_recordings_dir\<close> they pass, the remote listing command fails, and the dry run
  exits with status 1.
\<close>

theorem dry_run_listing_failure_counterexample:
  "dry_run (default_args\<lparr>dry_run := True\<rparr>) \<and> preflight_passes no_recordings_dir \<and>
   exit_status (main (default_args\<lparr>dry_run := True\<rparr>) no_recordings_dir) = 1"
proof -
  have pre: "preflight_passes no_recordings_dir"
    by (rule one_device_preflight) (simp_all add: no_recordings_dir_def quest_def)
  have ready: "mkdir_local_dir no_recordings_dir = None" "which_adb no_recordings_dir"
    "ensure_device_connected no_recordings_dir = Inr headset"
    by (simp_all add: one_device_connected no_recordings_dir_def quest_def)
  obtain m where "list_device_sessions no_recordings_dir
                    (device_dir (default_args\<lparr>dry_run := True\<rparr>)) = Inl (RuntimeError m)"
    using list_device_sessions_failed
      [of no_recordings_dir "device_dir (default_args\<lparr>dry_run := True\<rparr>)"]
    by (auto simp add: no_recordings_dir_def failed_result_def command_fails_def)
  with ready have "exit_status (main (default_args\<lparr>dry_run := True\<rparr>) no_recordings_dir) = 1"
    by (simp add: main_listing_failed early_return_fields)
  with pre show ?thesis by simp
qed

section \<open>Preflight and exit status\<close>







section \<open>The order of the pulls and the deletes\<close>

text \<open>
  Claim C4, as the code has it.  In every run the commands come in phases that never go
  back: preflight and listing, then the pulls, then the deletes, so that no pull follows
  a delete.  The pulls are made in ascending order of the session identifiers.  The
  deletes are made in ascending order with \<^verbatim>\<open>--delete-old-only\<close>; under the default
  policy they are two ascending runs, first the sessions that were local before the
  run, then the sessions pulled in it, and not one ascending run.  In a run that no
  exception ends the pulls are those of \<open>new_sessions\<close> and the deletes those of
  \<open>delete_candidates\<close>.
\<close>

theorem phases_in_order:
  "sorted (map phase (events (main a e))) \<and>
   sorted (pulls_of (events (main a e))) \<and>
   two_runs (deletes_of (events (main a e))) \<and>
   (no_delete a \<longrightarrow> deletes_of (events (main a e)) = []) \<and>
   (delete_old_only a \<longrightarrow> sorted (deletes_of (events (main a e)))) \<and>
   (traceback (main a e) = None \<longrightarrow>
      pulls_of (events (main a e)) = new_sessions (main a e) \<and>
      deletes_of (events (main a e)) = delete_candidates (main a e)) \<and>
   (\<not> no_delete a \<and> \<not> delete_old_only a \<longrightarrow>
      delete_candidates (main a e)
        = dict_fromkeys (old_sessions (main a e)) @ dict_fromkeys (pulled_ok (main a e)) \<and>
      sorted (dict_fromkeys (old_sessions (main a e))) \<and>
      sorted (dict_fromkeys (pulled_ok (main a e))))"
proof -
  obtain pre pulls deletes where shape: "run_shape a (main a e) pre pulls deletes"
    using main_shape by blast
  note ev = run_shape_events [OF shape]
  from shape have facts: "sorted pulls" "two_runs deletes" "no_delete a \<longrightarrow> deletes = []"
      "delete_old_only a \<longrightarrow> sorted deletes"
      "traceback (main a e) = None \<longrightarrow>
         pulls = new_sessions (main a e) \<and> deletes = delete_candidates (main a e)"
    by (simp_all add: run_shape_def)
  have "sorted (map phase (events (main a e)))"
    unfolding ev(1) by (rule sorted_phases)
  with facts default_candidates_runs [of a e] show ?thesis
    unfolding ev(2,3) by blast
qed

text \<open>
  The run on \<open>quest\<close> under the default policy, with \<^verbatim>\<open>--delete-old-only\<close> and with
  \<^verbatim>\<open>--no-delete\<close>.
\<close>

theorem phases_in_order_witness:
  "traceback (main default_args quest) = None \<and>
   \<not> no_delete default_args \<and> \<not> delete_old_only default_args \<and>
   events (main default_args quest) =
     [AdbDevices, AdbShellLs DEFAULT_DEVICE_DIR, AdbPull session_a, AdbPull session_b,
      AdbShellRm session_c, AdbShellRm session_a, AdbShellRm session_b] \<and>
   sorted (map phase (events (main default_args quest))) \<and>
   pulls_of (events (main default_args quest)) = [session_a, session_b] \<and>
   deletes_of (events (main default_args quest)) = [session_c, session_a, session_b] \<and>
   delete_candidates (main default_args quest)
     = dict_fromkeys [session_c] @ dict_fromkeys [session_a, session_b] \<and>
   delete_old_only (default_args\<lparr>delete_old_only := True\<rparr>) \<and>
   deletes_of (events (main (default_args\<lparr>delete_old_only := True\<rparr>) quest)) = [session_c] \<and>
   sorted (deletes_of (events (main (default_args\<lparr>delete_old_only := True\<rparr>) quest))) \<and>
   no_delete (default_args\<lparr>no_delete := True\<rparr>) \<and>
   pulls_of (events (main (default_args\<lparr>no_delete := True\<rparr>) quest)) = [session_a, session_b] \<and>
   deletes_of (events (main (default_args\<lparr>no_delete := True\<rparr>) quest)) = []"
proof -
  note d = phases_in_order [of default_args quest]
  note o = phases_in_order [of "default_args\<lparr>delete_old_only := True\<rparr>" quest]
  have run: "traceback (main default_args quest) = None"
    "traceback (main (default_args\<lparr>delete_old_only := True\<rparr>) quest) = None"
    by (simp_all add: quest_run)
  have ev: "events (main default_args quest) =
     [AdbDevices, AdbShellLs DEFAULT_DEVICE_DIR, AdbPull session_a, AdbPull session_b,
      AdbShellRm session_c, AdbShellRm session_a, AdbShellRm session_b]"
    by (simp add: quest_run default_events default_candidates default_args_flags)
  have old_only: "delete_old_only (default_args\<lparr>delete_old_only := True\<rparr>)"
    "delete_candidates (main (default_args\<lparr>delete_old_only := True\<rparr>) quest) = [session_c]"
    by (simp_all add: quest_run delete_candidates_of_def default_args_def)
  from d run have 1: "pulls_of (events (main default_args quest)) = [session_a, session_b]"
    "deletes_of (events (main default_args quest)) = [session_c, session_a, session_b]"
    by (simp_all add: quest_run default_candidates)
  from d have 2: "sorted (map phase (events (main default_args quest)))" by blast
  from d have 3: "delete_candidates (main default_args quest)
     = dict_fromkeys [session_c] @ dict_fromkeys [session_a, session_b]"
    by (simp add: quest_run default_args_flags)
  from o run old_only
  have 4: "deletes_of (events (main (default_args\<lparr>delete_old_only := True\<rparr>) quest)) = [session_c]"
    "sorted (deletes_of (events (main (default_args\<lparr>delete_old_only := True\<rparr>) quest)))"
    by simp_all
  note n = phases_in_order [of "default_args\<lparr>no_delete := True\<rparr>" quest]
  have run': "traceback (main (default_args\<lparr>no_delete := True\<rparr>) quest) = None"
    "new_sessions (main (default_args\<lparr>no_delete := True\<rparr>) quest) = [session_a, session_b]"
    by (simp_all add: quest_run)
  from n run'
  have 5: "pulls_of (events (main (default_args\<lparr>no_delete := True\<rparr>) quest))
             = [session_a, session_b]"
    "deletes_of (events (main (default_args\<lparr>no_delete := True\<rparr>) quest)) = []"
    by simp_all
  from run ev 1 2 3 4 5 old_only show ?thesis
    by (simp add: default_args_flags)
qed

text \<open>
  The claim as stated has the deletes of the default policy in ascending order over the
  whole candidate set.  On \<open>quest\<close> the third session was local before the run and the
  first two are pulled: it is deleted first, and the deletes are not in ascending order.
\<close>

theorem delete_order_counterexample:
  "\<not> no_delete default_args \<and> \<not> delete_old_only default_args \<and>
   deletes_of (events (main default_args quest)) = [session_c, session_a, session_b] \<and>
   session_a < session_c \<and>
   \<not> sorted (deletes_of (events (main default_args quest)))"
proof -
  have "events (main default_args quest) =
     [AdbDevices, AdbShellLs DEFAULT_DEVICE_DIR, AdbPull session_a, AdbPull session_b,
      AdbShellRm session_c, AdbShellRm session_a, AdbShellRm session_b]"
    by (simp add: quest_run default_events default_candidates default_args_flags)
  then have "deletes_of (events (main default_args quest)) = [session_c, session_a, session_b]"
    by simp
  moreover have "\<not> session_c \<le> session_a"
    using sessions_ordered(3) by simp
  ultimately show ?thesis
    by (simp add: default_args_flags sessions_ordered)
qed

section \<open>A session listed twice\<close>

text \<open>
  Claim C10, as the code has it.  In a run that passes the preflight checks, whose
  listing command succeeds and that no exception ends, a valid session name is in
  \<open>device_sessions\<close> as many times as the listing shows it.  It is as many times in
  \<open>new_sessions\<close> when it is not in the local directory, and not at all in
  \<open>new_sessions\<close> (but as many times in \<open>old_sessions\<close>) when it is; the pull is run
  once for each occurrence in \<open>new_sessions\<close>.  Under the default policy
  \<open>delete_candidates\<close> holds no session twice.
\<close>

theorem listed_more_than_once:
  "(preflight_passes e \<and> command_succeeds (adb_shell_ls e (device_dir a)) \<and>
    traceback (main a e) = None \<and> fullmatch SESSION_PATTERN s \<longrightarrow>
      count_list (device_sessions (main a e)) s = count_list (listed_names e a) s \<and>
      count_list (new_sessions (main a e)) s =
        (if s \<in> local_before (main a e) then 0 else count_list (listed_names e a) s) \<and>
      count_list (old_sessions (main a e)) s =
        (if s \<in> local_before (main a e) then count_list (listed_names e a) s else 0) \<and>
      count_list (pulls_of (events (main a e))) s = count_list (new_sessions (main a e)) s) \<and>
   (\<not> no_delete a \<and> \<not> delete_old_only a \<longrightarrow> distinct (delete_candidates (main a e)))"
proof -
  have counts: "count_list (device_sessions (main a e)) s = count_list (listed_names e a) s \<and>
      count_list (new_sessions (main a e)) s =
        (if s \<in> local_before (main a e) then 0 else count_list (listed_names e a) s) \<and>
      count_list (old_sessions (main a e)) s =
        (if s \<in> local_before (main a e) then count_list (listed_names e a) s else 0) \<and>
      count_list (pulls_of (events (main a e))) s = count_list (new_sessions (main a e)) s"
    if pre: "preflight_passes e" and ls: "command_succeeds (adb_shell_ls e (device_dir a))"
      and run: "traceback (main a e) = None" and valid: "fullmatch SESSION_PATTERN s"
  proof -
    from pre obtain serial where ready: "mkdir_local_dir e = None" "which_adb e"
        "ensure_device_connected e = Inr serial"
      by (auto simp add: preflight_passes_iff)
    define ds where "ds = sort [name \<leftarrow> listed_names e a. fullmatch SESSION_PATTERN name]"
    have listed: "list_device_sessions e (device_dir a) = Inr ds"
      using ls by (simp add: list_device_sessions_ok ds_def)
    have count: "count_list ds s = count_list (listed_names e a) s"
      using device_sessions_count [OF listed, of s] valid by simp
    show ?thesis
    proof (cases "ds = []")
      case True
      with listed have "list_device_sessions e (device_dir a) = Inr []" by simp
      with ready have "main a e = early_return 0 [AdbDevices, AdbShellLs (device_dir a)] None"
        by (rule main_nothing_found)
      with count True show ?thesis by (simp add: early_return_fields)
    next
      case False
      with ready listed have main: "main a e = sync_sessions a e ds" by (rule main_sync)
      show ?thesis
      proof (cases a e ds rule: sync_sessions_cases)
        case (raised exc evs)
        with run show ?thesis by (simp add: main uncaught_fields)
      next
        case (finished lb pulled pfailed deleted dfailed)
        note fields = done_fields [OF finished, folded main]
        have "pulls_of (events (main a e)) = new_sessions_of ds lb"
          by (simp add: fields pulls_of_append pulls_of_pull_events pulls_of_delete_events)
        with count show ?thesis
          by (simp add: fields new_sessions_of_def old_sessions_of_def count_list_filter)
      qed
    qed
  qed
  have once: "distinct (delete_candidates (main a e))"
    if "\<not> no_delete a" "\<not> delete_old_only a"
  proof (cases a e rule: main_cases)
    case blank
    then show ?thesis by (simp add: blank_fields)
  next
    case (finished serial ds lb pulled pfailed deleted dfailed)
    note fields = done_fields [OF finished(6-8), folded finished(9)]
    from that show ?thesis
      by (simp add: fields delete_candidates_of_def distinct_dict_fromkeys)
  qed
  from counts once show ?thesis by blast
qed

text \<open>
  The listing shows the first session twice, and the local directory does not hold it:
  it is pulled twice and deleted once.
\<close>

theorem listed_more_than_once_witness:
  "preflight_passes (listed_twice session_a) \<and>
   command_succeeds (adb_shell_ls (listed_twice session_a) (device_dir default_args)) \<and>
   traceback (main default_args (listed_twice session_a)) = None \<and>
   fullmatch SESSION_PATTERN session_a \<and>
   \<not> no_delete default_args \<and> \<not> delete_old_only default_args \<and>
   listed_names (listed_twice session_a) default_args = [session_a, session_a] \<and>
   session_a \<notin> local_before (main default_args (listed_twice session_a)) \<and>
   device_sessions (main default_args (listed_twice session_a)) = [session_a, session_a] \<and>
   new_sessions (main default_args (listed_twice session_a)) = [session_a, session_a] \<and>
   count_list (pulls_of (events (main default_args (listed_twice session_a)))) session_a = 2 \<and>
   delete_candidates (main default_args (listed_twice session_a)) = [session_a] \<and>
   distinct (delete_candidates (main default_args (listed_twice session_a)))"
proof -
  note run = listed_twice_run [OF listed_twice_names(1) sessions_valid(1), of default_args]
  have plan: "new_sessions_of [session_a, session_a] {session_c} = [session_a, session_a]"
    "old_sessions_of [session_a, session_a] {session_c} = []"
    by (simp_all add: new_sessions_of_def old_sessions_of_def sessions_distinct)
  have cands: "delete_candidates_of default_args [] [session_a, session_a] = [session_a]"
    by (simp add: delete_candidates_of_def dict_fromkeys_def default_args_flags)
  note claim = listed_more_than_once [of "listed_twice session_a" default_args session_a]
  from claim listed_twice_ready(1,5) run(1) sessions_valid(1)
  have "count_list (pulls_of (events (main default_args (listed_twice session_a)))) session_a
          = count_list (new_sessions (main default_args (listed_twice session_a))) session_a"
    by blast
  then have pulls: "count_list (pulls_of (events (main default_args (listed_twice session_a))))
                      session_a = 2"
    by (simp add: run plan)
  from claim default_args_flags
  have once: "distinct (delete_candidates (main default_args (listed_twice session_a)))"
    by blast
  from listed_twice_ready(1,5) run pulls once show ?thesis
    by (simp add: plan cands sessions_valid default_args_flags listed_twice_names
          sessions_distinct)
qed

text \<open>
  The claim as stated has every name that the listing shows more than once several
  times in \<open>new_sessions\<close>.  When the listing shows the third session twice, which the
  local directory holds, it is twice in \<open>device_sessions\<close> and not in \<open>new_sessions\<close>,
  and no pull is run.
\<close>

theorem listed_twice_local_counterexample:
  "fullmatch SESSION_PATTERN session_c \<and>
   count_list (listed_names (listed_twice session_c) default_args) session_c = 2 \<and>
   count_list (device_sessions (main default_args (listed_twice session_c))) session_c = 2 \<and>
   new_sessions (main default_args (listed_twice session_c)) = [] \<and>
   pulls_of (events (main default_args (listed_twice session_c))) = []"
proof -
  note run = listed_twice_run [OF listed_twice_names(2) sessions_valid(3), of default_args]
  have plan: "new_sessions_of [session_c, session_c] {session_c} = []"
    "old_sessions_of [session_c, session_c] {session_c} = [session_c, session_c]"
    by (simp_all add: new_sessions_of_def old_sessions_of_def)
  show ?thesis
    by (simp add: run plan sessions_valid listed_twice_names pulls_of_append
          pulls_of_delete_events)
qed

end
